theory Spec2Isabelle
  imports Main
begin

section \<open>The seed of express-yui: data model\<close>

text \<open>
  The development embeds \<^verbatim>\<open>exposeSeed\<close> of the \<^verbatim>\<open>yui.seed\<close> extension
  (\<^verbatim>\<open>lib/seed.js\<close>) together with \<^verbatim>\<open>yui.config\<close> of \<^verbatim>\<open>lib/yui.js\<close>, which it calls.

  JavaScript values are typed as the YUI configuration documents them: \<^verbatim>\<open>base\<close>,
  \<^verbatim>\<open>comboBase\<close>, \<^verbatim>\<open>comboSep\<close>, \<^verbatim>\<open>root\<close>, \<^verbatim>\<open>filter\<close>, the \<^verbatim>\<open>group\<close> and
  \<^verbatim>\<open>path\<close> of a registry entry are strings or \<^verbatim>\<open>undefined\<close> (\<open>None\<close>), and
  \<^verbatim>\<open>combine\<close> is a boolean (\<^verbatim>\<open>undefined\<close> is \<open>False\<close>). An object used as a
  dictionary (\<^verbatim>\<open>this._map\<close>, \<^verbatim>\<open>config.groups\<close>) is given by its own properties:
  \<open>m k = None\<close> says that \<open>m\<close> has no own property \<open>k\<close>. The read \<^verbatim>\<open>m[k]\<close> also finds
  what every object inherits from \<^verbatim>\<open>Object.prototype\<close>; it is \<open>js_get\<close> below.
\<close>

datatype error = Error string | TypeError

record group_descriptor =
  base :: "string option"
  combine :: bool
  comboBase :: "string option"
  comboSep :: "string option"
  root :: "string option"

record module_entry =
  group :: "string option"
  path :: "string option"

text \<open>The static configuration carries the top-level serving settings, so that it can
  stand for a group itself, and on top of them the seed, the groups and the filter.\<close>

record yui_config = group_descriptor +
  seed :: "string list option"
  groups :: "(string \<rightharpoonup> group_descriptor) option"
  filter_js :: "string option"

record yui_locals =
  yui :: "yui_config option"

record yui_static =
  locals :: "yui_locals option"
  map_js :: "(string \<rightharpoonup> module_entry) option"

record script_descriptor =
  src :: string

text \<open>What is written to the console: \<^verbatim>\<open>console.log(prevGroup)\<close>, recorded with the
  serving settings of the group, and \<^verbatim>\<open>console.warn\<close> with its message.\<close>

datatype console_event = ConsoleLog group_descriptor | ConsoleWarn string

text \<open>The three variables that the closures \<^verbatim>\<open>flush\<close> and \<^verbatim>\<open>isSimilarGroup\<close> share
  with the loop.\<close>

record seed_state =
  seedCache :: "script_descriptor list"
  stack :: "string list"
  prevGroup :: "group_descriptor option"

text \<open>What \<^verbatim>\<open>exposeSeed\<close> returns: an express middleware that sets
  \<^verbatim>\<open>res.locals.yui_seed\<close> to the captured array, or the boolean \<^verbatim>\<open>false\<close>.\<close>

datatype seed_result = Middleware "script_descriptor list" | JSFalse

section \<open>JavaScript primitives\<close>

text \<open>String conversion of a string-or-undefined value, as \<^verbatim>\<open>+\<close> with a string operand
  and property access by key apply it.\<close>

definition ToString :: "string option \<Rightarrow> string" where
  "ToString v = (case v of None \<Rightarrow> ''undefined'' | Some s \<Rightarrow> s)"

fun join_with :: "string \<Rightarrow> string list \<Rightarrow> string" where
  "join_with sep [] = ''''"
| "join_with sep [x] = x"
| "join_with sep (x # y # ys) = x @ sep @ join_with sep (y # ys)"

text \<open>\<^verbatim>\<open>Array.prototype.join\<close>: an undefined separator is a comma.\<close>

definition join :: "string list \<Rightarrow> string option \<Rightarrow> string" where
  "join xs separator = join_with (case separator of None \<Rightarrow> '','' | Some s \<Rightarrow> s) xs"

text \<open>The members of \<^verbatim>\<open>Object.prototype\<close> in Node.js: those of the language standard
  and the legacy accessors of V8. Each is a function, or for \<^verbatim>\<open>__proto__\<close> the prototype
  object itself: a truthy value on which every property that \<^verbatim>\<open>exposeSeed\<close> reads is
  \<^verbatim>\<open>undefined\<close>.\<close>

definition Object_prototype :: "string list" where
  "Object_prototype =
     [''constructor'', ''toString'', ''toLocaleString'', ''valueOf'', ''hasOwnProperty'',
      ''isPrototypeOf'', ''propertyIsEnumerable'', ''__defineGetter__'', ''__defineSetter__'',
      ''__lookupGetter__'', ''__lookupSetter__'', ''__proto__'']"

text \<open>The read \<^verbatim>\<open>obj[k]\<close> on a plain object: an own property first, then the inherited
  member, seen at the type of the object's values as \<open>inherited\<close>.\<close>

definition js_get :: "(string \<rightharpoonup> 'a) \<Rightarrow> 'a \<Rightarrow> string \<Rightarrow> 'a option" where
  "js_get own inherited k =
     (case own k of
        Some v \<Rightarrow> Some v
      | None \<Rightarrow> (if k \<in> set Object_prototype then Some inherited else None))"

text \<open>An inherited member read as a registry entry and as a group.\<close>

definition inherited_entry :: module_entry where
  "inherited_entry = \<lparr>group = None, path = None\<rparr>"

definition inherited_group :: group_descriptor where
  "inherited_group =
     \<lparr>base = None, combine = False, comboBase = None, comboSep = None, root = None\<rparr>"

section \<open>yui.config and the seed extension\<close>

definition empty_config :: yui_config where
  "empty_config = \<lparr>base = None, combine = False, comboBase = None, comboSep = None,
     root = None, seed = None, groups = None, filter_js = None\<rparr>"

text \<open>\<^verbatim>\<open>yui.config()\<close> without supplier: it throws before \<^verbatim>\<open>yui()\<close> has set
  \<^verbatim>\<open>yui.locals\<close>, creates \<^verbatim>\<open>locals.yui\<close> when it is missing, and returns it.\<close>

definition config :: "yui_static \<Rightarrow> error + (yui_config \<times> yui_static)" where
  "config this =
     (case locals this of
        None \<Rightarrow> Inl (Error ''yui() should happen before.'')
      | Some l \<Rightarrow>
          (case yui l of
             None \<Rightarrow> Inr (empty_config, this\<lparr>locals := Some (l\<lparr>yui := Some empty_config\<rparr>)\<rparr>)
           | Some c \<Rightarrow> Inr (c, this)))"

definition FILTERS_MAP :: "string \<rightharpoonup> string" where
  "FILTERS_MAP = [''raw'' \<mapsto> '''', ''min'' \<mapsto> ''-min'', ''debug'' \<mapsto> ''-debug'']"

definition DEFAULT_FILTER :: string where
  "DEFAULT_FILTER = ''-min''"

definition getDefaultSeed :: "string list" where
  "getDefaultSeed = [''yui-base'']"

text \<open>The filter suffix: \<^verbatim>\<open>config.filter && FILTERS_MAP.hasOwnProperty(config.filter) ?
  FILTERS_MAP[config.filter] : DEFAULT_FILTER\<close>. The empty string is falsy.\<close>

definition exposeSeed_filter :: "string option \<Rightarrow> string" where
  "exposeSeed_filter f =
     (case f of
        None \<Rightarrow> DEFAULT_FILTER
      | Some n \<Rightarrow>
          (if n \<noteq> '''' then (case FILTERS_MAP n of Some s \<Rightarrow> s | None \<Rightarrow> DEFAULT_FILTER)
           else DEFAULT_FILTER))"

text \<open>\<^verbatim>\<open>flush\<close>: with a pending stack it logs \<^verbatim>\<open>prevGroup\<close> and reads its
  \<^verbatim>\<open>comboBase\<close>, which is a \<^verbatim>\<open>TypeError\<close> on \<^verbatim>\<open>undefined\<close>. Console output is
  returned beside the new state.\<close>

definition flush :: "seed_state \<Rightarrow> error + (seed_state \<times> console_event list)" where
  "flush st =
     (if length (stack st) > 0 then
        (case prevGroup st of
           None \<Rightarrow> Inl TypeError
         | Some p \<Rightarrow>
             Inr (st\<lparr>seedCache := seedCache st @
                      [\<lparr>src = ToString (comboBase p) @ join (stack st) (comboSep p)\<rparr>],
                    stack := []\<rparr>,
                  [ConsoleLog p]))
      else Inr (st\<lparr>stack := []\<rparr>, []))"

definition isSimilarGroup :: "group_descriptor option \<Rightarrow> group_descriptor option \<Rightarrow> bool" where
  "isSimilarGroup newGroup prev =
     (case newGroup of
        None \<Rightarrow> False
      | Some n \<Rightarrow>
          combine n \<and>
          (case prev of
             None \<Rightarrow> False
           | Some p \<Rightarrow> combine p \<and> comboBase n = comboBase p \<and> comboSep n = comboSep p))"

text \<open>Lines 249 to 260 of the loop body: the group and the path of one module.
  \<^verbatim>\<open>map[modules[i]]\<close> and \<^verbatim>\<open>groups[...]\<close> are plain reads, without
  \<^verbatim>\<open>hasOwnProperty\<close>.\<close>

definition lookup_module ::
  "yui_config \<Rightarrow> (string \<rightharpoonup> module_entry) \<Rightarrow> (string \<rightharpoonup> group_descriptor) \<Rightarrow> string \<Rightarrow>
   string \<Rightarrow> group_descriptor option \<times> string option" where
  "lookup_module cfg mp grps flt m =
     (case js_get mp inherited_entry m of
        Some e \<Rightarrow> (js_get grps inherited_group (ToString (group e)), path e)
      | None \<Rightarrow> (Some (group_descriptor.truncate cfg), Some (m @ ''/'' @ m @ flt @ ''.js'')))"

definition skip_warning :: "string \<Rightarrow> string" where
  "skip_warning m =
     ''Skipping module ['' @ m @ ''] form '' @ ''seed due to invalid group resolution.''"

text \<open>The branch taken when \<^verbatim>\<open>path && group\<close> holds.\<close>

definition exposeSeed_emit ::
  "group_descriptor \<Rightarrow> string \<Rightarrow> seed_state \<Rightarrow> error + (seed_state \<times> console_event list)" where
  "exposeSeed_emit g p st =
     (case (if \<not> isSimilarGroup (Some g) (prevGroup st) then flush st else Inr (st, [])) of
        Inl e \<Rightarrow> Inl e
      | Inr (st1, out) \<Rightarrow>
          Inr ((if combine g then st1\<lparr>stack := stack st1 @ [ToString (root g) @ p]\<rparr>
                else st1\<lparr>seedCache := seedCache st1 @ [\<lparr>src = ToString (base g) @ p\<rparr>]\<rparr>)
                 \<lparr>prevGroup := Some g\<rparr>,
               out))"

text \<open>One iteration of the loop.\<close>

definition exposeSeed_step ::
  "yui_config \<Rightarrow> (string \<rightharpoonup> module_entry) \<Rightarrow> (string \<rightharpoonup> group_descriptor) \<Rightarrow> string \<Rightarrow>
   string \<Rightarrow> seed_state \<Rightarrow> error + (seed_state \<times> console_event list)" where
  "exposeSeed_step cfg mp grps flt m st =
     (case lookup_module cfg mp grps flt m of
        (Some g, Some p) \<Rightarrow>
          (if p \<noteq> '''' then exposeSeed_emit g p st
           else Inr (st, [ConsoleWarn (skip_warning m)]))
      | _ \<Rightarrow> Inr (st, [ConsoleWarn (skip_warning m)]))"

fun exposeSeed_loop ::
  "yui_config \<Rightarrow> (string \<rightharpoonup> module_entry) \<Rightarrow> (string \<rightharpoonup> group_descriptor) \<Rightarrow> string \<Rightarrow>
   string list \<Rightarrow> seed_state \<Rightarrow> error + (seed_state \<times> console_event list)" where
  "exposeSeed_loop cfg mp grps flt [] st = Inr (st, [])"
| "exposeSeed_loop cfg mp grps flt (m # ms) st =
     (case exposeSeed_step cfg mp grps flt m st of
        Inl e \<Rightarrow> Inl e
      | Inr (st1, out1) \<Rightarrow>
          (case exposeSeed_loop cfg mp grps flt ms st1 of
             Inl e \<Rightarrow> Inl e
           | Inr (st2, out2) \<Rightarrow> Inr (st2, out1 @ out2)))"

text \<open>\<^verbatim>\<open>groups = config.groups || {}\<close>: the own properties of the catalog, none for
  \<^verbatim>\<open>{}\<close>. The loop reads it with \<open>js_get\<close>.\<close>

definition exposeSeed_groups :: "yui_config \<Rightarrow> (string \<rightharpoonup> group_descriptor)" where
  "exposeSeed_groups cfg = (case groups cfg of Some g \<Rightarrow> g | None \<Rightarrow> Map.empty)"

text \<open>\<^verbatim>\<open>seedCache = []\<close>, \<^verbatim>\<open>stack = []\<close> and \<^verbatim>\<open>prevGroup\<close> undefined.\<close>

definition initial_state :: seed_state where
  "initial_state = \<lparr>seedCache = [], stack = [], prevGroup = None\<rparr>"

text \<open>The loop from the initial variables, followed by the last \<^verbatim>\<open>flush()\<close>: the
  final \<^verbatim>\<open>seedCache\<close> and the console output.\<close>

definition exposeSeed_run ::
  "yui_config \<Rightarrow> (string \<rightharpoonup> module_entry) \<Rightarrow> string list \<Rightarrow>
   error + (script_descriptor list \<times> console_event list)" where
  "exposeSeed_run cfg mp modules =
     (case exposeSeed_loop cfg mp (exposeSeed_groups cfg) (exposeSeed_filter (filter_js cfg))
             modules initial_state of
        Inl e \<Rightarrow> Inl e
      | Inr (st1, out1) \<Rightarrow>
          (case flush st1 of
             Inl e \<Rightarrow> Inl e
           | Inr (st2, out2) \<Rightarrow> Inr (seedCache st2, out1 @ out2)))"

text \<open>\<^verbatim>\<open>seedCache.length > 0 ? function (req, res, next) {...} : false\<close>\<close>

definition exposeSeed_return :: "script_descriptor list \<Rightarrow> seed_result" where
  "exposeSeed_return cache = (if length cache > 0 then Middleware cache else JSFalse)"

text \<open>\<^verbatim>\<open>map = this._map || {}\<close>: the own properties of the registry, none for
  \<^verbatim>\<open>{}\<close>. The loop reads it with \<open>js_get\<close>.\<close>

definition exposeSeed_map :: "yui_static \<Rightarrow> (string \<rightharpoonup> module_entry)" where
  "exposeSeed_map this = (case map_js this of Some m \<Rightarrow> m | None \<Rightarrow> Map.empty)"

text \<open>\<^verbatim>\<open>modules = config.seed || this.getDefaultSeed()\<close>; an array is truthy even when
  it is empty.\<close>

definition exposeSeed_modules :: "yui_config \<Rightarrow> string list" where
  "exposeSeed_modules cfg = (case seed cfg of Some s \<Rightarrow> s | None \<Rightarrow> getDefaultSeed)"

text \<open>\<^verbatim>\<open>exposeSeed\<close>: the value returned, the console output and the static object
  after the call.\<close>

definition exposeSeed ::
  "yui_static \<Rightarrow> error + (seed_result \<times> console_event list \<times> yui_static)" where
  "exposeSeed this =
     (case config this of
        Inl e \<Rightarrow> Inl e
      | Inr (cfg, this1) \<Rightarrow>
          (case exposeSeed_run cfg (exposeSeed_map this1) (exposeSeed_modules cfg) of
             Inl e \<Rightarrow> Inl e
           | Inr (cache, out) \<Rightarrow> Inr (exposeSeed_return cache, out, this1)))"

section \<open>The arrays of a call in a store\<close>

text \<open>
  \<^verbatim>\<open>exposeSeed\<close> creates its arrays in every call: \<^verbatim>\<open>seedCache = []\<close> and
  \<^verbatim>\<open>stack = []\<close> when it declares its variables, and \<^verbatim>\<open>stack = []\<close> again in every
  \<^verbatim>\<open>flush\<close>. The middleware that it returns keeps \<^verbatim>\<open>seedCache\<close>. To tell an array
  created by a call from one that an earlier call left behind, this second embedding
  keeps the arrays in a store: a list of cells, the address of an array being its index.
  The variables of the closures hold addresses; \<^verbatim>\<open>push\<close> writes the cell at an address;
  the static object travels with the store. The groups and the configuration, which
  the function only reads, stay values.
\<close>

datatype cell = StringArray "string list" | DescriptorArray "script_descriptor list"

record world =
  static :: yui_static
  store :: "cell list"

record seed_refs =
  seedCache_ref :: nat
  stack_ref :: nat
  prevGroup_val :: "group_descriptor option"

datatype seed_result_ref = MiddlewareRef nat | JSFalseRef

text \<open>An array literal \<^verbatim>\<open>[]\<close>: a new cell at the end of the store.\<close>

definition new_array :: "cell \<Rightarrow> world \<Rightarrow> nat \<times> world" where
  "new_array c w = (length (store w), w\<lparr>store := store w @ [c]\<rparr>)"

text \<open>Reading a variable's array. A variable of \<^verbatim>\<open>exposeSeed\<close> only ever holds the
  address of an array of its own kind; the other cases are a \<open>TypeError\<close> here and are
  never reached.\<close>

definition get_strings :: "world \<Rightarrow> nat \<Rightarrow> error + string list" where
  "get_strings w a =
     (if a < length (store w)
      then (case store w ! a of StringArray xs \<Rightarrow> Inr xs | DescriptorArray ds \<Rightarrow> Inl TypeError)
      else Inl TypeError)"

definition get_descriptors :: "world \<Rightarrow> nat \<Rightarrow> error + script_descriptor list" where
  "get_descriptors w a =
     (if a < length (store w)
      then (case store w ! a of DescriptorArray ds \<Rightarrow> Inr ds | StringArray xs \<Rightarrow> Inl TypeError)
      else Inl TypeError)"

definition set_cell :: "nat \<Rightarrow> cell \<Rightarrow> world \<Rightarrow> world" where
  "set_cell a c w = w\<lparr>store := (store w)[a := c]\<rparr>"

text \<open>\<^verbatim>\<open>flush\<close>: \<^verbatim>\<open>seedCache.push\<close> writes the array of \<^verbatim>\<open>seedCache\<close>, and
  \<^verbatim>\<open>stack = []\<close> points \<^verbatim>\<open>stack\<close> to a new array.\<close>

definition flush_store ::
  "seed_refs \<Rightarrow> world \<Rightarrow> error + (seed_refs \<times> world \<times> console_event list)" where
  "flush_store v w =
     (case get_strings w (stack_ref v) of
        Inl e \<Rightarrow> Inl e
      | Inr s \<Rightarrow>
          (if length s > 0 then
             (case prevGroup_val v of
                None \<Rightarrow> Inl TypeError
              | Some p \<Rightarrow>
                  (case get_descriptors w (seedCache_ref v) of
                     Inl e \<Rightarrow> Inl e
                   | Inr c \<Rightarrow>
                       (case new_array (StringArray [])
                               (set_cell (seedCache_ref v)
                                  (DescriptorArray
                                     (c @ [\<lparr>src = ToString (comboBase p) @ join s (comboSep p)\<rparr>]))
                                  w) of
                          (a, w1) \<Rightarrow> Inr (v\<lparr>stack_ref := a\<rparr>, w1, [ConsoleLog p]))))
           else (case new_array (StringArray []) w of
                   (a, w1) \<Rightarrow> Inr (v\<lparr>stack_ref := a\<rparr>, w1, []))))"

definition exposeSeed_emit_store ::
  "group_descriptor \<Rightarrow> string \<Rightarrow> seed_refs \<Rightarrow> world \<Rightarrow>
   error + (seed_refs \<times> world \<times> console_event list)" where
  "exposeSeed_emit_store g p v w =
     (case (if \<not> isSimilarGroup (Some g) (prevGroup_val v) then flush_store v w
            else Inr (v, w, [])) of
        Inl e \<Rightarrow> Inl e
      | Inr (v1, w1, out) \<Rightarrow>
          (if combine g then
             (case get_strings w1 (stack_ref v1) of
                Inl e \<Rightarrow> Inl e
              | Inr s \<Rightarrow>
                  Inr (v1\<lparr>prevGroup_val := Some g\<rparr>,
                       set_cell (stack_ref v1) (StringArray (s @ [ToString (root g) @ p])) w1,
                       out))
           else
             (case get_descriptors w1 (seedCache_ref v1) of
                Inl e \<Rightarrow> Inl e
              | Inr c \<Rightarrow>
                  Inr (v1\<lparr>prevGroup_val := Some g\<rparr>,
                       set_cell (seedCache_ref v1)
                         (DescriptorArray (c @ [\<lparr>src = ToString (base g) @ p\<rparr>])) w1,
                       out))))"

definition exposeSeed_step_store ::
  "yui_config \<Rightarrow> (string \<rightharpoonup> module_entry) \<Rightarrow> (string \<rightharpoonup> group_descriptor) \<Rightarrow> string \<Rightarrow>
   string \<Rightarrow> seed_refs \<Rightarrow> world \<Rightarrow> error + (seed_refs \<times> world \<times> console_event list)" where
  "exposeSeed_step_store cfg mp grps flt m v w =
     (case lookup_module cfg mp grps flt m of
        (Some g, Some p) \<Rightarrow>
          (if p \<noteq> '''' then exposeSeed_emit_store g p v w
           else Inr (v, w, [ConsoleWarn (skip_warning m)]))
      | _ \<Rightarrow> Inr (v, w, [ConsoleWarn (skip_warning m)]))"

fun exposeSeed_loop_store ::
  "yui_config \<Rightarrow> (string \<rightharpoonup> module_entry) \<Rightarrow> (string \<rightharpoonup> group_descriptor) \<Rightarrow> string \<Rightarrow>
   string list \<Rightarrow> seed_refs \<Rightarrow> world \<Rightarrow> error + (seed_refs \<times> world \<times> console_event list)" where
  "exposeSeed_loop_store cfg mp grps flt [] v w = Inr (v, w, [])"
| "exposeSeed_loop_store cfg mp grps flt (m # ms) v w =
     (case exposeSeed_step_store cfg mp grps flt m v w of
        Inl e \<Rightarrow> Inl e
      | Inr (v1, w1, out1) \<Rightarrow>
          (case exposeSeed_loop_store cfg mp grps flt ms v1 w1 of
             Inl e \<Rightarrow> Inl e
           | Inr (v2, w2, out2) \<Rightarrow> Inr (v2, w2, out1 @ out2)))"

text \<open>\<^verbatim>\<open>exposeSeed\<close> on the store: \<^verbatim>\<open>this.config()\<close>, the two array literals of the
  declarations, the loop, the last \<^verbatim>\<open>flush()\<close>, and the middleware over the array of
  \<^verbatim>\<open>seedCache\<close> or \<^verbatim>\<open>false\<close>.\<close>

definition exposeSeed_store ::
  "world \<Rightarrow> error + (seed_result_ref \<times> console_event list \<times> world)" where
  "exposeSeed_store w =
     (case config (static w) of
        Inl e \<Rightarrow> Inl e
      | Inr (cfg, this1) \<Rightarrow>
          (case new_array (DescriptorArray []) (w\<lparr>static := this1\<rparr>) of
             (sc, w1) \<Rightarrow>
               (case new_array (StringArray []) w1 of
                  (sk, w2) \<Rightarrow>
                    (case exposeSeed_loop_store cfg (exposeSeed_map this1) (exposeSeed_groups cfg)
                            (exposeSeed_filter (filter_js cfg)) (exposeSeed_modules cfg)
                            \<lparr>seedCache_ref = sc, stack_ref = sk, prevGroup_val = None\<rparr> w2 of
                       Inl e \<Rightarrow> Inl e
                     | Inr (v1, w3, out1) \<Rightarrow>
                         (case flush_store v1 w3 of
                            Inl e \<Rightarrow> Inl e
                          | Inr (v2, w4, out2) \<Rightarrow>
                              (case get_descriptors w4 (seedCache_ref v2) of
                                 Inl e \<Rightarrow> Inl e
                               | Inr c \<Rightarrow>
                                   Inr (if length c > 0 then MiddlewareRef (seedCache_ref v2)
                                        else JSFalseRef,
                                        out1 @ out2, w4)))))))"

text \<open>The value returned stands for the list \<open>ds\<close> in the world \<open>w\<close>: \<^verbatim>\<open>false\<close> for the
  empty list, else a middleware over an array that holds \<open>ds\<close> and was created at or after
  the address \<open>n\<close>.\<close>

definition holds_list :: "seed_result_ref \<Rightarrow> world \<Rightarrow> nat \<Rightarrow> script_descriptor list \<Rightarrow> bool" where
  "holds_list r w n ds =
     (case r of
        MiddlewareRef a \<Rightarrow>
          n \<le> a \<and> a < length (store w) \<and> store w ! a = DescriptorArray ds \<and> ds \<noteq> []
      | JSFalseRef \<Rightarrow> ds = [])"

text \<open>The variables of a call in a world and the variables of the first embedding agree;
  the arrays of the call lie at or after the address \<open>n\<close>.\<close>

definition refs_rel :: "nat \<Rightarrow> seed_refs \<Rightarrow> world \<Rightarrow> seed_state \<Rightarrow> bool" where
  "refs_rel n v w st \<longleftrightarrow>
     n \<le> seedCache_ref v \<and> n \<le> stack_ref v \<and>
     seedCache_ref v < length (store w) \<and> stack_ref v < length (store w) \<and>
     store w ! seedCache_ref v = DescriptorArray (seedCache st) \<and>
     store w ! stack_ref v = StringArray (stack st) \<and>
     prevGroup_val v = prevGroup st"

section \<open>The resolution as the specification words it\<close>

text \<open>A module resolves when the loop finds a group and a truthy path for it.\<close>

type_synonym resolved_module = "group_descriptor \<times> string"

definition resolve ::
  "yui_config \<Rightarrow> (string \<rightharpoonup> module_entry) \<Rightarrow> string \<Rightarrow> resolved_module option" where
  "resolve cfg mp m =
     (case lookup_module cfg mp (exposeSeed_groups cfg) (exposeSeed_filter (filter_js cfg)) m of
        (Some g, Some p) \<Rightarrow> (if p \<noteq> '''' then Some (g, p) else None)
      | _ \<Rightarrow> None)"

definition resolved_modules ::
  "yui_config \<Rightarrow> (string \<rightharpoonup> module_entry) \<Rightarrow> string list \<Rightarrow> resolved_module list" where
  "resolved_modules cfg mp ms = List.map_filter (resolve cfg mp) ms"

text \<open>Two descriptors are compatible iff both have \<open>combine\<close> and they agree on
  \<open>comboBase\<close> and \<open>comboSep\<close>.\<close>

definition compatible :: "group_descriptor \<Rightarrow> group_descriptor \<Rightarrow> bool" where
  "compatible g h \<longleftrightarrow>
     combine g \<and> combine h \<and> comboBase g = comboBase h \<and> comboSep g = comboSep h"

text \<open>The maximal runs of consecutive modules with compatible groups, each as its first
  module and the rest; a module of a group without \<open>combine\<close> is a run of its own.\<close>

fun runs :: "resolved_module list \<Rightarrow> (resolved_module \<times> resolved_module list) list" where
  "runs [] = []"
| "runs (x # xs) =
     (case runs xs of
        [] \<Rightarrow> [(x, [])]
      | (h, t) # rs \<Rightarrow>
          (if compatible (fst x) (fst h) then (x, h # t) # rs else (x, []) # (h, t) # rs))"

definition fragment :: "resolved_module \<Rightarrow> string" where
  "fragment x = ToString (root (fst x)) @ snd x"

definition single_descriptor :: "resolved_module \<Rightarrow> script_descriptor" where
  "single_descriptor x = \<lparr>src = ToString (base (fst x)) @ snd x\<rparr>"

definition combo_descriptor :: "group_descriptor \<Rightarrow> string list \<Rightarrow> script_descriptor" where
  "combo_descriptor g frags = \<lparr>src = ToString (comboBase g) @ join frags (comboSep g)\<rparr>"

definition run_descriptor :: "resolved_module \<times> resolved_module list \<Rightarrow> script_descriptor" where
  "run_descriptor r =
     (case r of (h, t) \<Rightarrow>
        if combine (fst h) then combo_descriptor (fst h) (map fragment (h # t))
        else single_descriptor h)"

definition spec_descriptors :: "resolved_module list \<Rightarrow> script_descriptor list" where
  "spec_descriptors xs = map run_descriptor (runs xs)"

section \<open>Notions used in the proofs\<close>

text \<open>A pending stack always comes with the group that was pushed last.\<close>

definition stack_inv :: "seed_state \<Rightarrow> bool" where
  "stack_inv st \<longleftrightarrow> stack st = [] \<or> (\<exists>p. prevGroup st = Some p \<and> combine p)"

text \<open>What a pending stack and the runs still to come contribute to the output.\<close>

definition pending_descriptors ::
  "string list \<Rightarrow> group_descriptor option \<Rightarrow> (resolved_module \<times> resolved_module list) list \<Rightarrow>
   script_descriptor list" where
  "pending_descriptors s prev rs =
     (case prev of
        None \<Rightarrow> map run_descriptor rs
      | Some p \<Rightarrow>
          (if s = [] then map run_descriptor rs
           else (case rs of
                   [] \<Rightarrow> [combo_descriptor p s]
                 | (h, t) # rs' \<Rightarrow>
                     (if compatible p (fst h)
                      then combo_descriptor p (s @ map fragment (h # t)) # map run_descriptor rs'
                      else combo_descriptor p s # map run_descriptor rs))))"

fun warnings :: "console_event list \<Rightarrow> string list" where
  "warnings [] = []"
| "warnings (ConsoleWarn w # es) = w # warnings es"
| "warnings (ConsoleLog g # es) = warnings es"

fun logs :: "console_event list \<Rightarrow> group_descriptor list" where
  "logs [] = []"
| "logs (ConsoleWarn w # es) = logs es"
| "logs (ConsoleLog g # es) = g # logs es"

section \<open>A sample configuration\<close>

definition sample_combo :: group_descriptor where
  "sample_combo = \<lparr>base = Some ''/static/'', combine = True, comboBase = Some ''/combo?'',
     comboSep = Some ''&'', root = Some ''r/''\<rparr>"

definition sample_other :: group_descriptor where
  "sample_other = \<lparr>base = Some ''/other/'', combine = True, comboBase = Some ''/combo?'',
     comboSep = Some ''&'', root = Some ''o/''\<rparr>"

definition sample_plain :: group_descriptor where
  "sample_plain = \<lparr>base = Some ''/app/'', combine = False, comboBase = None,
     comboSep = None, root = None\<rparr>"

definition sample_config :: yui_config where
  "sample_config = \<lparr>base = Some ''/yui/'', combine = False, comboBase = Some ''/yui-combo?'',
     comboSep = Some ''&'', root = Some ''3.10.0/'', seed = Some [''a'', ''x'', ''b'', ''c''],
     groups = Some [''g'' \<mapsto> sample_combo, ''o'' \<mapsto> sample_other, ''h'' \<mapsto> sample_plain],
     filter_js = None\<rparr>"

definition sample_map :: "string \<rightharpoonup> module_entry" where
  "sample_map = [''a'' \<mapsto> \<lparr>group = Some ''g'', path = Some ''pathA''\<rparr>,
     ''b'' \<mapsto> \<lparr>group = Some ''o'', path = Some ''pathB''\<rparr>,
     ''c'' \<mapsto> \<lparr>group = Some ''h'', path = Some ''pathC''\<rparr>,
     ''d'' \<mapsto> \<lparr>group = Some ''g'', path = Some ''pathD''\<rparr>,
     ''x'' \<mapsto> \<lparr>group = Some ''missing'', path = Some ''pathX''\<rparr>,
     ''e'' \<mapsto> \<lparr>group = Some ''g'', path = Some ''''\<rparr>]"

definition sample_static :: yui_static where
  "sample_static = \<lparr>locals = Some \<lparr>yui = Some sample_config\<rparr>, map_js = Some sample_map\<rparr>"

definition sample_empty :: yui_static where
  "sample_empty =
     \<lparr>locals = Some \<lparr>yui = Some (sample_config\<lparr>seed := Some []\<rparr>)\<rparr>, map_js = Some sample_map\<rparr>"

definition sample_world :: world where
  "sample_world = \<lparr>static = sample_static, store = [DescriptorArray [\<lparr>src = ''earlier''\<rparr>]]\<rparr>"

definition sample_world_after :: world where
  "sample_world_after =
     \<lparr>static = sample_static,
        store = [DescriptorArray [\<lparr>src = ''earlier''\<rparr>],
                 DescriptorArray [\<lparr>src = ''/combo?r/pathA&o/pathB''\<rparr>, \<lparr>src = ''/app/pathC''\<rparr>],
                 StringArray [], StringArray [''r/pathA'', ''o/pathB''], StringArray [],
                 StringArray []]\<rparr>"

definition sample_inherited_map :: "string \<rightharpoonup> module_entry" where
  "sample_inherited_map = [''p'' \<mapsto> \<lparr>group = Some ''constructor'', path = Some ''pathP''\<rparr>]"

definition sample_combining :: yui_config where
  "sample_combining = sample_config\<lparr>combine := True\<rparr>"

section \<open>Basic facts\<close>

lemma ToString_simps [simp]: "ToString (Some s) = s" "ToString None = ''undefined''"
  by (simp_all add: ToString_def)

lemma warnings_append [simp]: "warnings (xs @ ys) = warnings xs @ warnings ys"
  by (induction xs rule: warnings.induct) auto

lemma logs_append [simp]: "logs (xs @ ys) = logs xs @ logs ys"
  by (induction xs rule: logs.induct) auto

lemma step_resolve:
  "exposeSeed_step cfg mp (exposeSeed_groups cfg) (exposeSeed_filter (filter_js cfg)) m st =
     (case resolve cfg mp m of
        Some (g, p) \<Rightarrow> exposeSeed_emit g p st
      | None \<Rightarrow> Inr (st, [ConsoleWarn (skip_warning m)]))"
  by (simp add: exposeSeed_step_def resolve_def split: prod.splits option.splits)

lemma js_get_own [simp]: "own k = Some v \<Longrightarrow> js_get own inherited k = Some v"
  by (simp add: js_get_def)

lemma js_get_plain: "own k = None \<Longrightarrow> k \<notin> set Object_prototype \<Longrightarrow> js_get own inherited k = None"
  by (simp add: js_get_def)

lemma js_get_inherited:
  "own k = None \<Longrightarrow> k \<in> set Object_prototype \<Longrightarrow> js_get own inherited k = Some inherited"
  by (simp add: js_get_def)

lemma resolve_registered:
  "mp m = Some e \<Longrightarrow>
   resolve cfg mp m =
     (case (js_get (exposeSeed_groups cfg) inherited_group (ToString (group e)), path e) of
        (Some g, Some p) \<Rightarrow> if p \<noteq> '''' then Some (g, p) else None
      | _ \<Rightarrow> None)"
  by (simp add: resolve_def lookup_module_def)

text \<open>A name without own registry entry takes the default branch, unless every object
  inherits it: then the inherited member is read as an entry without path.\<close>

lemma resolve_unregistered:
  "mp m = None \<Longrightarrow> m \<notin> set Object_prototype \<Longrightarrow>
   resolve cfg mp m =
     Some (group_descriptor.truncate cfg,
           m @ ''/'' @ m @ exposeSeed_filter (filter_js cfg) @ ''.js'')"
  by (simp add: resolve_def lookup_module_def js_get_plain)

lemma resolve_inherited:
  "mp m = None \<Longrightarrow> m \<in> set Object_prototype \<Longrightarrow> resolve cfg mp m = None"
  by (simp add: resolve_def lookup_module_def js_get_inherited inherited_entry_def
      split: option.splits)

lemma resolved_modules_Nil [simp]: "resolved_modules cfg mp [] = []"
  by (simp add: resolved_modules_def)

lemma resolved_modules_Cons:
  "resolved_modules cfg mp (m # ms) =
     (case resolve cfg mp m of
        None \<Rightarrow> resolved_modules cfg mp ms
      | Some x \<Rightarrow> x # resolved_modules cfg mp ms)"
  by (simp add: resolved_modules_def split: option.splits)

lemma isSimilarGroup_compatible: "isSimilarGroup (Some g) (Some p) \<longleftrightarrow> compatible p g"
  by (auto simp: isSimilarGroup_def compatible_def)

lemma isSimilarGroup_None [simp]: "\<not> isSimilarGroup (Some g) None"
  by (simp add: isSimilarGroup_def)

subsection \<open>The runs of a list\<close>

lemma runs_Cons_hd: "\<exists>t rs. runs (x # xs) = (x, t) # rs"
  by (simp split: list.splits prod.splits)

lemma runs_concat: "concat (map (\<lambda>r. fst r # snd r) (runs xs)) = xs"
  by (induction xs) (auto split: list.splits)

lemma runs_chain:
  "r \<in> set (runs xs) \<Longrightarrow> successively (\<lambda>x y. compatible (fst x) (fst y)) (fst r # snd r)"
  by (induction xs arbitrary: r) (auto split: list.splits if_splits)

lemma runs_maximal:
  "successively (\<lambda>r1 r2. \<not> compatible (fst (last (fst r1 # snd r1))) (fst (fst r2))) (runs xs)"
  by (induction xs) (auto split: list.splits if_splits simp: successively_Cons)

lemma runs_no_combine:
  "\<forall>x \<in> set xs. \<not> combine (fst x) \<Longrightarrow> runs xs = map (\<lambda>x. (x, [])) xs"
  by (induction xs) (auto split: list.splits simp: compatible_def)

lemma spec_descriptors_no_combine:
  "\<forall>x \<in> set xs. \<not> combine (fst x) \<Longrightarrow> spec_descriptors xs = map single_descriptor xs"
  by (simp add: spec_descriptors_def runs_no_combine run_descriptor_def)

subsection \<open>The closures under the invariant\<close>

lemma flush_inv:
  "stack_inv st \<Longrightarrow>
   flush st =
     Inr (st\<lparr>seedCache := seedCache st @ pending_descriptors (stack st) (prevGroup st) [],
            stack := []\<rparr>,
          map ConsoleLog (if stack st = [] then [] else [the (prevGroup st)]))"
  by (auto simp: stack_inv_def flush_def pending_descriptors_def combo_descriptor_def
      split: option.splits)

lemma emit_similar:
  "isSimilarGroup (Some g) (prevGroup st) \<Longrightarrow>
   exposeSeed_emit g p st =
     Inr (st\<lparr>stack := stack st @ [fragment (g, p)], prevGroup := Some g\<rparr>, [])"
  by (auto simp: exposeSeed_emit_def isSimilarGroup_def fragment_def split: option.splits)

lemma emit_fresh:
  "\<not> isSimilarGroup (Some g) (prevGroup st) \<Longrightarrow> stack_inv st \<Longrightarrow>
   exposeSeed_emit g p st =
     Inr (if combine g
          then \<lparr>seedCache = seedCache st @ pending_descriptors (stack st) (prevGroup st) [],
                stack = [fragment (g, p)], prevGroup = Some g\<rparr>
          else \<lparr>seedCache = seedCache st @ pending_descriptors (stack st) (prevGroup st) [] @
                  [single_descriptor (g, p)],
                stack = [], prevGroup = Some g\<rparr>,
          map ConsoleLog (if stack st = [] then [] else [the (prevGroup st)]))"
  by (simp add: exposeSeed_emit_def flush_inv fragment_def single_descriptor_def)

text \<open>One resolvable module keeps the invariant, warns nothing, and moves the first
  module of the remaining list into the pending stack or into the output.\<close>

lemma emit_pending:
  assumes "stack_inv st"
  shows "\<exists>st1 out. exposeSeed_emit g p st = Inr (st1, out) \<and> stack_inv st1 \<and> warnings out = [] \<and>
           seedCache st1 @ pending_descriptors (stack st1) (prevGroup st1) (runs xs) =
           seedCache st @ pending_descriptors (stack st) (prevGroup st) (runs ((g, p) # xs))"
proof (cases "isSimilarGroup (Some g) (prevGroup st)")
  case True
  then obtain q where q: "prevGroup st = Some q" "compatible q g"
    by (cases "prevGroup st") (auto simp: isSimilarGroup_compatible)
  from q(2) have cg: "combine g" by (simp add: compatible_def)
  have "pending_descriptors (stack st @ [fragment (g, p)]) (Some g) (runs xs) =
        pending_descriptors (stack st) (Some q) (runs ((g, p) # xs))"
    using q(2) cg
    by (auto simp: pending_descriptors_def run_descriptor_def compatible_def combo_descriptor_def
        split: list.splits)
  with True q cg show ?thesis
    by (simp add: emit_similar stack_inv_def)
next
  case False
  have hd: "\<exists>t rs. runs ((g, p) # xs) = ((g, p), t) # rs" by (rule runs_Cons_hd)
  show ?thesis
  proof (cases "combine g")
    case True
    have "pending_descriptors (stack st) (prevGroup st) [] @
          pending_descriptors [fragment (g, p)] (Some g) (runs xs) =
          pending_descriptors (stack st) (prevGroup st) (runs ((g, p) # xs))"
      using False True assms hd
      by (cases "prevGroup st")
         (auto simp: pending_descriptors_def run_descriptor_def compatible_def combo_descriptor_def
            isSimilarGroup_def stack_inv_def split: list.splits)
    with False True assms show ?thesis
      by (auto simp: emit_fresh stack_inv_def)
  next
    case nc: False
    have "pending_descriptors (stack st) (prevGroup st) [] @
          single_descriptor (g, p) # map run_descriptor (runs xs) =
          pending_descriptors (stack st) (prevGroup st) (runs ((g, p) # xs))"
      using nc assms
      by (cases "prevGroup st")
         (auto simp: pending_descriptors_def run_descriptor_def compatible_def combo_descriptor_def
            stack_inv_def split: list.splits)
    moreover have "pending_descriptors [] (Some g) (runs xs) = map run_descriptor (runs xs)"
      by (simp add: pending_descriptors_def)
    ultimately show ?thesis using False nc assms
      by (auto simp: emit_fresh stack_inv_def)
  qed
qed

subsection \<open>The loop refines the runs\<close>

lemma loop_pending:
  assumes "stack_inv st"
  shows "\<exists>st' out.
           exposeSeed_loop cfg mp (exposeSeed_groups cfg) (exposeSeed_filter (filter_js cfg)) ms st =
             Inr (st', out) \<and>
           stack_inv st' \<and>
           warnings out = map skip_warning (filter (\<lambda>m. resolve cfg mp m = None) ms) \<and>
           seedCache st' @ pending_descriptors (stack st') (prevGroup st') [] =
           seedCache st @
             pending_descriptors (stack st) (prevGroup st) (runs (resolved_modules cfg mp ms))"
  using assms
proof (induction ms arbitrary: st)
  case Nil
  then show ?case by simp
next
  case (Cons m ms)
  show ?case
  proof (cases "resolve cfg mp m")
    case None
    from Cons.IH [OF Cons.prems] None show ?thesis
      by (auto simp: step_resolve resolved_modules_Cons)
  next
    case (Some x)
    obtain g p where x: "x = (g, p)" by (cases x)
    from emit_pending [OF Cons.prems, of g p "resolved_modules cfg mp ms"]
    obtain st1 out1 where s1: "exposeSeed_emit g p st = Inr (st1, out1)" "stack_inv st1"
      "warnings out1 = []"
      "seedCache st1 @ pending_descriptors (stack st1) (prevGroup st1)
         (runs (resolved_modules cfg mp ms)) =
       seedCache st @ pending_descriptors (stack st) (prevGroup st)
         (runs ((g, p) # resolved_modules cfg mp ms))"
      by blast
    from Cons.IH [OF s1(2)] obtain st' out where
      s2: "exposeSeed_loop cfg mp (exposeSeed_groups cfg) (exposeSeed_filter (filter_js cfg)) ms st1 =
             Inr (st', out)" "stack_inv st'"
          "warnings out = map skip_warning (filter (\<lambda>m. resolve cfg mp m = None) ms)"
          "seedCache st' @ pending_descriptors (stack st') (prevGroup st') [] =
           seedCache st1 @
             pending_descriptors (stack st1) (prevGroup st1) (runs (resolved_modules cfg mp ms))"
      by blast
    from s1 s2 Some x show ?thesis
      by (simp add: step_resolve resolved_modules_Cons)
  qed
qed

lemma run_refines:
  "\<exists>out. exposeSeed_run cfg mp ms = Inr (spec_descriptors (resolved_modules cfg mp ms), out) \<and>
         warnings out = map skip_warning (filter (\<lambda>m. resolve cfg mp m = None) ms)"
proof -
  have inv0: "stack_inv initial_state" by (simp add: stack_inv_def initial_state_def)
  from loop_pending [OF inv0, of cfg mp ms] obtain st' out where
    l: "exposeSeed_loop cfg mp (exposeSeed_groups cfg) (exposeSeed_filter (filter_js cfg)) ms
          initial_state = Inr (st', out)" "stack_inv st'"
       "warnings out = map skip_warning (filter (\<lambda>m. resolve cfg mp m = None) ms)"
       "seedCache st' @ pending_descriptors (stack st') (prevGroup st') [] =
        seedCache initial_state @ pending_descriptors (stack initial_state) (prevGroup initial_state)
          (runs (resolved_modules cfg mp ms))"
    by blast
  from l(4) have "seedCache st' @ pending_descriptors (stack st') (prevGroup st') [] =
      spec_descriptors (resolved_modules cfg mp ms)"
    by (simp add: initial_state_def pending_descriptors_def spec_descriptors_def)
  with l(1,2,3) show ?thesis
    by (simp add: exposeSeed_run_def flush_inv)
qed

lemma run_two_similar:
  assumes "resolve cfg mp a = Some (ga, pa)" "resolve cfg mp b = Some (gb, pb)"
    "combine ga" "combine gb" "comboBase ga = comboBase gb" "comboSep ga = comboSep gb"
  shows "exposeSeed_run cfg mp [a, b] =
           Inr ([combo_descriptor gb [fragment (ga, pa), fragment (gb, pb)]], [ConsoleLog gb])"
  using assms
  by (simp add: exposeSeed_run_def step_resolve exposeSeed_emit_def isSimilarGroup_def
      initial_state_def flush_def combo_descriptor_def fragment_def)

subsection \<open>Further facts about the loop and the runs\<close>

lemma emit_only_logs:
  "exposeSeed_emit g p st = Inr (st1, out) \<Longrightarrow> map ConsoleLog (logs out) = out"
  by (auto simp: exposeSeed_emit_def flush_def split: if_splits option.splits)

lemma flush_only_logs: "flush st = Inr (st1, out) \<Longrightarrow> map ConsoleLog (logs out) = out"
  by (auto simp: flush_def split: if_splits option.splits)

lemma loop_filter:
  "exposeSeed_loop cfg mp (exposeSeed_groups cfg) (exposeSeed_filter (filter_js cfg)) ms st =
     Inr (st', out) \<Longrightarrow>
   exposeSeed_loop cfg mp (exposeSeed_groups cfg) (exposeSeed_filter (filter_js cfg))
     (filter (\<lambda>m. resolve cfg mp m \<noteq> None) ms) st = Inr (st', map ConsoleLog (logs out))"
proof (induction ms arbitrary: st st' out)
  case Nil
  then show ?case by simp
next
  case (Cons m ms)
  show ?case
  proof (cases "resolve cfg mp m")
    case None
    with Cons.prems obtain out2 where
      "exposeSeed_loop cfg mp (exposeSeed_groups cfg) (exposeSeed_filter (filter_js cfg)) ms st =
         Inr (st', out2)" "out = ConsoleWarn (skip_warning m) # out2"
      by (auto simp: step_resolve split: sum.splits)
    with Cons.IH None show ?thesis by simp
  next
    case (Some x)
    obtain g p where x: "x = (g, p)" by (cases x)
    with Cons.prems Some obtain st1 out1 out2 where
      e: "exposeSeed_emit g p st = Inr (st1, out1)"
      and l: "exposeSeed_loop cfg mp (exposeSeed_groups cfg) (exposeSeed_filter (filter_js cfg))
                ms st1 = Inr (st', out2)"
      and o: "out = out1 @ out2"
      by (auto simp: step_resolve split: sum.splits)
    from Cons.IH [OF l] emit_only_logs [OF e] e o Some x show ?thesis
      by (simp add: step_resolve)
  qed
qed

lemma run_filter:
  assumes "exposeSeed_run cfg mp ms = Inr (ds, out)"
  shows "exposeSeed_run cfg mp (filter (\<lambda>m. resolve cfg mp m \<noteq> None) ms) =
           Inr (ds, map ConsoleLog (logs out))"
proof -
  from assms obtain st1 out1 st2 out2 where
    l: "exposeSeed_loop cfg mp (exposeSeed_groups cfg) (exposeSeed_filter (filter_js cfg)) ms
          initial_state = Inr (st1, out1)"
    and f: "flush st1 = Inr (st2, out2)" and d: "ds = seedCache st2" "out = out1 @ out2"
    by (auto simp: exposeSeed_run_def split: sum.splits)
  from loop_filter [OF l] f flush_only_logs [OF f] d show ?thesis
    by (simp add: exposeSeed_run_def)
qed

lemma resolve_None_iff:
  "resolve cfg mp m = None \<longleftrightarrow>
     (case lookup_module cfg mp (exposeSeed_groups cfg) (exposeSeed_filter (filter_js cfg)) m of
        (g, p) \<Rightarrow> g = None \<or> p = None \<or> p = Some '''')"
  by (auto simp: resolve_def split: prod.splits option.splits)

lemma exposeSeed_total: "locals this \<noteq> None \<Longrightarrow> \<exists>r. exposeSeed this = Inr r"
proof -
  assume "locals this \<noteq> None"
  then have "\<exists>cfg this'. config this = Inr (cfg, this')"
    by (cases "locals this"; cases "yui (the (locals this))") (auto simp: config_def)
  then obtain cfg this' where c: "config this = Inr (cfg, this')"
    by blast
  from run_refines [of cfg "exposeSeed_map this'" "exposeSeed_modules cfg"] c
  show ?thesis by (auto simp: exposeSeed_def)
qed

lemma resolved_modules_append:
  "resolved_modules cfg mp (xs @ ys) = resolved_modules cfg mp xs @ resolved_modules cfg mp ys"
  by (induction xs) (auto simp: resolved_modules_Cons split: option.splits)

lemma runs_Nil_iff: "runs xs = [] \<longleftrightarrow> xs = []"
  by (cases xs) (auto split: list.splits)

lemma runs_plain_Cons: "\<not> combine (fst x) \<Longrightarrow> runs (x # ys) = (x, []) # runs ys"
  by (cases "runs ys") (auto simp: compatible_def)

lemma runs_append_plain:
  "\<not> combine (fst x) \<Longrightarrow> runs (xs @ x # ys) = runs (xs @ [x]) @ runs ys"
proof (induction xs)
  case Nil
  then show ?case by (simp add: runs_plain_Cons del: runs.simps(2))
next
  case (Cons a xs)
  obtain h t rs where r: "runs (xs @ [x]) = (h, t) # rs"
    by (cases "runs (xs @ [x])") (auto simp: runs_Nil_iff)
  from Cons have "runs (xs @ x # ys) = ((h, t) # rs) @ runs ys"
    by (simp add: r)
  with r show ?case by simp
qed

lemma spec_descriptors_append_plain:
  "\<not> combine (fst x) \<Longrightarrow>
   spec_descriptors (xs @ x # ys) = spec_descriptors (xs @ [x]) @ spec_descriptors ys"
  using runs_append_plain [of x xs ys] by (simp add: spec_descriptors_def)

lemma run_descriptors:
  "\<exists>out. exposeSeed_run cfg mp ms = Inr (spec_descriptors (resolved_modules cfg mp ms), out)"
  using run_refines [of cfg mp ms] by blast

lemma run_three_boundary:
  assumes "resolve cfg mp a = Some (g, pa)" "resolve cfg mp b = Some (h, pb)"
    "resolve cfg mp c = Some (g', pc)" "combine g" "\<not> combine h" "combine g'"
  shows "exposeSeed_run cfg mp [a, b, c] =
           Inr ([combo_descriptor g [fragment (g, pa)], single_descriptor (h, pb),
                 combo_descriptor g' [fragment (g', pc)]], [ConsoleLog g, ConsoleLog g'])"
  using assms
  by (simp add: exposeSeed_run_def step_resolve exposeSeed_emit_def isSimilarGroup_def
      initial_state_def flush_def combo_descriptor_def fragment_def single_descriptor_def)

lemma run_skip_anywhere:
  assumes "resolve cfg mp u = None"
  shows "\<exists>ds o1 o2. exposeSeed_run cfg mp (pre @ u # post) = Inr (ds, o1) \<and>
           exposeSeed_run cfg mp (pre @ post) = Inr (ds, o2)"
proof -
  have "resolved_modules cfg mp (pre @ u # post) = resolved_modules cfg mp (pre @ post)"
    using assms by (simp add: resolved_modules_append resolved_modules_Cons)
  with run_descriptors [of cfg mp "pre @ u # post"] run_descriptors [of cfg mp "pre @ post"]
  show ?thesis by auto
qed

lemma run_three_skip:
  assumes "resolve cfg mp a = Some (ga, pa)" "resolve cfg mp u = None"
    "resolve cfg mp b = Some (gb, pb)"
    "combine ga" "combine gb" "comboBase ga = comboBase gb" "comboSep ga = comboSep gb"
  shows "exposeSeed_run cfg mp [a, u, b] =
           Inr ([combo_descriptor gb [fragment (ga, pa), fragment (gb, pb)]],
                [ConsoleWarn (skip_warning u), ConsoleLog gb])"
  using assms
  by (simp add: exposeSeed_run_def step_resolve exposeSeed_emit_def isSimilarGroup_def
      initial_state_def flush_def combo_descriptor_def fragment_def)

lemma truncate_simps [simp]:
  "base (group_descriptor.truncate cfg) = base cfg"
  "combine (group_descriptor.truncate cfg) = combine cfg"
  "comboBase (group_descriptor.truncate cfg) = comboBase cfg"
  "comboSep (group_descriptor.truncate cfg) = comboSep cfg"
  "root (group_descriptor.truncate cfg) = root cfg"
  by (simp_all add: group_descriptor.truncate_def)

lemma spec_descriptors_Nil_iff: "spec_descriptors xs = [] \<longleftrightarrow> xs = []"
  by (simp add: spec_descriptors_def runs_Nil_iff)

lemma exposeSeed_config:
  assumes "config this = Inr (cfg, this')"
  shows "\<exists>out. exposeSeed_run cfg (exposeSeed_map this') (exposeSeed_modules cfg) =
           Inr (spec_descriptors
                  (resolved_modules cfg (exposeSeed_map this') (exposeSeed_modules cfg)), out) \<and>
         exposeSeed this =
           Inr (exposeSeed_return
                  (spec_descriptors
                     (resolved_modules cfg (exposeSeed_map this') (exposeSeed_modules cfg))),
                out, this')"
  using run_descriptors [of cfg "exposeSeed_map this'" "exposeSeed_modules cfg"] assms
  by (auto simp: exposeSeed_def)

lemma unresolvable_registered:
  assumes "mp m = Some e"
    and "js_get (exposeSeed_groups cfg) inherited_group (ToString (group e)) = None \<or>
         path e = Some ''''"
  shows "resolve cfg mp m = None"
  using assms by (auto simp: resolve_registered split: option.splits)

subsection \<open>The store follows the variables\<close>

lemma flush_store_sim:
  assumes "refs_rel n v w st" and "flush st = Inr (st', out)"
  shows "\<exists>v' w'. flush_store v w = Inr (v', w', out) \<and> refs_rel n v' w' st' \<and>
           take n (store w') = take n (store w) \<and> static w' = static w \<and>
           seedCache_ref v' = seedCache_ref v"
proof (cases "stack st = []")
  case True
  with assms show ?thesis
    by (auto simp: refs_rel_def flush_def flush_store_def get_strings_def new_array_def
        nth_append)
next
  case False
  with assms(2) obtain p where p: "prevGroup st = Some p"
    by (auto simp: flush_def split: option.splits)
  from assms(1) have ne: "seedCache_ref v \<noteq> stack_ref v"
    by (auto simp: refs_rel_def)
  from assms False p ne show ?thesis
    by (auto simp: refs_rel_def flush_def flush_store_def get_strings_def get_descriptors_def
        new_array_def set_cell_def nth_append)
qed

lemma emit_store_sim:
  assumes "refs_rel n v w st" and "exposeSeed_emit g p st = Inr (st', out)"
  shows "\<exists>v' w'. exposeSeed_emit_store g p v w = Inr (v', w', out) \<and> refs_rel n v' w' st' \<and>
           take n (store w') = take n (store w) \<and> static w' = static w \<and>
           seedCache_ref v' = seedCache_ref v"
proof -
  from assms(2) obtain st1 where
    f: "(if \<not> isSimilarGroup (Some g) (prevGroup st) then flush st else Inr (st, [])) =
          Inr (st1, out)"
    and st': "st' = (if combine g then st1\<lparr>stack := stack st1 @ [ToString (root g) @ p]\<rparr>
                     else st1\<lparr>seedCache := seedCache st1 @ [\<lparr>src = ToString (base g) @ p\<rparr>]\<rparr>)
                    \<lparr>prevGroup := Some g\<rparr>"
    by (auto simp: exposeSeed_emit_def split: sum.splits)
  have "\<exists>v1 w1. (if \<not> isSimilarGroup (Some g) (prevGroup_val v) then flush_store v w
                   else Inr (v, w, [])) = Inr (v1, w1, out) \<and>
          refs_rel n v1 w1 st1 \<and> take n (store w1) = take n (store w) \<and> static w1 = static w \<and>
          seedCache_ref v1 = seedCache_ref v"
  proof (cases "isSimilarGroup (Some g) (prevGroup st)")
    case True
    with f assms(1) show ?thesis by (auto simp: refs_rel_def)
  next
    case False
    with f have "flush st = Inr (st1, out)" by simp
    from flush_store_sim [OF assms(1) this] False assms(1) show ?thesis
      by (auto simp: refs_rel_def)
  qed
  then obtain v1 w1 where
    s: "(if \<not> isSimilarGroup (Some g) (prevGroup_val v) then flush_store v w
         else Inr (v, w, [])) = Inr (v1, w1, out)"
    and r: "refs_rel n v1 w1 st1" and t: "take n (store w1) = take n (store w)"
    and u: "static w1 = static w" and c: "seedCache_ref v1 = seedCache_ref v"
    by blast
  from r have ne: "seedCache_ref v1 \<noteq> stack_ref v1" by (auto simp: refs_rel_def)
  from s r t u c ne st' show ?thesis
    by (auto simp: exposeSeed_emit_store_def refs_rel_def get_strings_def get_descriptors_def
        set_cell_def)
qed

lemma step_store_sim:
  assumes "refs_rel n v w st" and "exposeSeed_step cfg mp grps flt m st = Inr (st', out)"
  shows "\<exists>v' w'. exposeSeed_step_store cfg mp grps flt m v w = Inr (v', w', out) \<and>
           refs_rel n v' w' st' \<and> take n (store w') = take n (store w) \<and>
           static w' = static w \<and> seedCache_ref v' = seedCache_ref v"
proof (cases "lookup_module cfg mp grps flt m")
  case (Pair go po)
  show ?thesis
  proof (cases "\<exists>g p. go = Some g \<and> po = Some p \<and> p \<noteq> ''''")
    case True
    then obtain g p where gp: "go = Some g" "po = Some p" "p \<noteq> ''''" by blast
    with Pair assms(2) have "exposeSeed_emit g p st = Inr (st', out)"
      by (simp add: exposeSeed_step_def)
    from emit_store_sim [OF assms(1) this] Pair gp show ?thesis
      by (simp add: exposeSeed_step_store_def)
  next
    case False
    with Pair assms show ?thesis
      by (auto simp: exposeSeed_step_def exposeSeed_step_store_def split: option.splits if_splits)
  qed
qed

lemma loop_store_sim:
  assumes "refs_rel n v w st" and "exposeSeed_loop cfg mp grps flt ms st = Inr (st', out)"
  shows "\<exists>v' w'. exposeSeed_loop_store cfg mp grps flt ms v w = Inr (v', w', out) \<and>
           refs_rel n v' w' st' \<and> take n (store w') = take n (store w) \<and>
           static w' = static w \<and> seedCache_ref v' = seedCache_ref v"
  using assms
proof (induction ms arbitrary: v w st out)
  case Nil
  then show ?case by simp
next
  case (Cons m ms)
  from Cons.prems(2) obtain st1 out1 out2 where
    s: "exposeSeed_step cfg mp grps flt m st = Inr (st1, out1)"
    and l: "exposeSeed_loop cfg mp grps flt ms st1 = Inr (st', out2)"
    and o: "out = out1 @ out2"
    by (auto split: sum.splits)
  from step_store_sim [OF Cons.prems(1) s] obtain v1 w1 where
    s1: "exposeSeed_step_store cfg mp grps flt m v w = Inr (v1, w1, out1)"
    and r1: "refs_rel n v1 w1 st1" and t1: "take n (store w1) = take n (store w)"
    and u1: "static w1 = static w" and c1: "seedCache_ref v1 = seedCache_ref v"
    by blast
  from Cons.IH [OF r1 l] obtain v' w' where
    "exposeSeed_loop_store cfg mp grps flt ms v1 w1 = Inr (v', w', out2)"
    "refs_rel n v' w' st'" "take n (store w') = take n (store w1)"
    "static w' = static w1" "seedCache_ref v' = seedCache_ref v1"
    by blast
  with s1 t1 u1 c1 o show ?case by simp
qed

lemma exposeSeed_store_run:
  assumes c: "config (static w) = Inr (cfg, this1)"
    and r: "exposeSeed_run cfg (exposeSeed_map this1) (exposeSeed_modules cfg) = Inr (ds, out)"
  shows "\<exists>rr w'. exposeSeed_store w = Inr (rr, out, w') \<and> static w' = this1 \<and>
           take (length (store w)) (store w') = store w \<and>
           holds_list rr w' (length (store w)) ds"
proof -
  let ?n = "length (store w)"
  let ?w2 = "w\<lparr>static := this1, store := store w @ [DescriptorArray [], StringArray []]\<rparr>"
  let ?v = "\<lparr>seedCache_ref = ?n, stack_ref = Suc ?n, prevGroup_val = None\<rparr>"
  from r obtain st1 out1 st2 out2 where
    l: "exposeSeed_loop cfg (exposeSeed_map this1) (exposeSeed_groups cfg)
          (exposeSeed_filter (filter_js cfg)) (exposeSeed_modules cfg) initial_state =
        Inr (st1, out1)"
    and f: "flush st1 = Inr (st2, out2)" and d: "ds = seedCache st2" and o: "out = out1 @ out2"
    by (auto simp: exposeSeed_run_def split: sum.splits)
  have rel0: "refs_rel ?n ?v ?w2 initial_state"
    by (simp add: refs_rel_def initial_state_def nth_append)
  from loop_store_sim [OF rel0 l] obtain v1 w3 where
    l': "exposeSeed_loop_store cfg (exposeSeed_map this1) (exposeSeed_groups cfg)
          (exposeSeed_filter (filter_js cfg)) (exposeSeed_modules cfg) ?v ?w2 = Inr (v1, w3, out1)"
    and r1: "refs_rel ?n v1 w3 st1" and t1: "take ?n (store w3) = take ?n (store ?w2)"
    and u1: "static w3 = static ?w2" and c1: "seedCache_ref v1 = seedCache_ref ?v"
    by blast
  from flush_store_sim [OF r1 f] obtain v2 w4 where
    f': "flush_store v1 w3 = Inr (v2, w4, out2)"
    and r2: "refs_rel ?n v2 w4 st2" and t2: "take ?n (store w4) = take ?n (store w3)"
    and u2: "static w4 = static w3" and c2: "seedCache_ref v2 = seedCache_ref v1"
    by blast
  from r2 d have g: "get_descriptors w4 (seedCache_ref v2) = Inr ds"
    by (simp add: refs_rel_def get_descriptors_def)
  have e: "exposeSeed_store w =
      Inr (if length ds > 0 then MiddlewareRef (seedCache_ref v2) else JSFalseRef, out, w4)"
    using c l' f' g o by (simp add: exposeSeed_store_def new_array_def)
  moreover have "static w4 = this1" using u1 u2 by simp
  moreover have "take ?n (store w4) = store w" using t1 t2 by simp
  moreover have "holds_list (if length ds > 0 then MiddlewareRef (seedCache_ref v2) else JSFalseRef)
      w4 ?n ds"
    using r2 d by (auto simp: holds_list_def refs_rel_def)
  ultimately show ?thesis by blast
qed

lemma config_again:
  "config this = Inr (cfg, this') \<Longrightarrow>
   config this' = Inr (cfg, this') \<and> map_js this' = map_js this \<and>
   ((\<exists>l c. locals this = Some l \<and> yui l = Some c) \<longrightarrow> this' = this)"
  by (auto simp: config_def split: option.splits)

lemma exposeSeed_store_Inr:
  assumes "exposeSeed_store w = Inr (r, out, w')"
  shows "\<exists>cfg ds. config (static w) = Inr (cfg, static w') \<and>
           exposeSeed_run cfg (exposeSeed_map (static w')) (exposeSeed_modules cfg) = Inr (ds, out) \<and>
           take (length (store w)) (store w') = store w \<and>
           holds_list r w' (length (store w)) ds"
proof -
  from assms obtain cfg this1 where c: "config (static w) = Inr (cfg, this1)"
    by (auto simp: exposeSeed_store_def split: sum.splits)
  from run_refines [of cfg "exposeSeed_map this1" "exposeSeed_modules cfg"] obtain ds out0 where
    r: "exposeSeed_run cfg (exposeSeed_map this1) (exposeSeed_modules cfg) = Inr (ds, out0)"
    by blast
  from exposeSeed_store_run [OF c r] assms c r show ?thesis by auto
qed

subsection \<open>The sample configuration\<close>

lemma config_sample_empty:
  "config sample_empty = Inr (sample_config\<lparr>seed := Some []\<rparr>, sample_empty)"
  by (simp add: config_def sample_empty_def)

lemma sample_groups:
  "exposeSeed_groups sample_config ''g'' = Some sample_combo"
  "exposeSeed_groups sample_config ''o'' = Some sample_other"
  "exposeSeed_groups sample_config ''h'' = Some sample_plain"
  "exposeSeed_groups sample_config ''missing'' = None"
  by (simp_all add: exposeSeed_groups_def sample_config_def)

lemma sample_entries:
  "sample_map ''a'' = Some \<lparr>group = Some ''g'', path = Some ''pathA''\<rparr>"
  "sample_map ''b'' = Some \<lparr>group = Some ''o'', path = Some ''pathB''\<rparr>"
  "sample_map ''c'' = Some \<lparr>group = Some ''h'', path = Some ''pathC''\<rparr>"
  "sample_map ''d'' = Some \<lparr>group = Some ''g'', path = Some ''pathD''\<rparr>"
  "sample_map ''x'' = Some \<lparr>group = Some ''missing'', path = Some ''pathX''\<rparr>"
  "sample_map ''e'' = Some \<lparr>group = Some ''g'', path = Some ''''\<rparr>"
  "sample_map ''foo'' = None"
  "sample_map ''bar'' = None"
  by (simp_all add: sample_map_def)

lemma sample_resolve:
  "resolve sample_config sample_map ''a'' = Some (sample_combo, ''pathA'')"
  "resolve sample_config sample_map ''b'' = Some (sample_other, ''pathB'')"
  "resolve sample_config sample_map ''c'' = Some (sample_plain, ''pathC'')"
  "resolve sample_config sample_map ''d'' = Some (sample_combo, ''pathD'')"
  "resolve sample_config sample_map ''x'' = None"
  "resolve sample_config sample_map ''e'' = None"
  by (simp_all add: resolve_registered sample_entries sample_groups js_get_plain
      Object_prototype_def)

lemma sample_lookups:
  "lookup_module sample_config sample_map (exposeSeed_groups sample_config) flt ''a'' =
     (Some sample_combo, Some ''pathA'')"
  "lookup_module sample_config sample_map (exposeSeed_groups sample_config) flt ''x'' =
     (None, Some ''pathX'')"
  "lookup_module sample_config sample_map (exposeSeed_groups sample_config) flt ''b'' =
     (Some sample_other, Some ''pathB'')"
  "lookup_module sample_config sample_map (exposeSeed_groups sample_config) flt ''c'' =
     (Some sample_plain, Some ''pathC'')"
  by (simp_all add: lookup_module_def sample_entries sample_groups js_get_plain
      Object_prototype_def)

lemma sample_world_call:
  "exposeSeed_store sample_world =
     Inr (MiddlewareRef 1,
          [ConsoleWarn ''Skipping module [x] form seed due to invalid group resolution.'',
           ConsoleLog sample_other],
          sample_world_after)"
proof -
  have c: "config (static sample_world) = Inr (sample_config, sample_static)"
    by (simp add: config_def sample_world_def sample_static_def)
  have m: "exposeSeed_map sample_static = sample_map"
    "exposeSeed_modules sample_config = [''a'', ''x'', ''b'', ''c'']"
    by (simp_all add: exposeSeed_map_def sample_static_def exposeSeed_modules_def
        sample_config_def)
  have g: "combine sample_combo" "combine sample_other" "\<not> combine sample_plain"
    "comboBase sample_combo = Some ''/combo?''" "comboSep sample_combo = Some ''&''"
    "comboBase sample_other = Some ''/combo?''" "comboSep sample_other = Some ''&''"
    "root sample_combo = Some ''r/''" "root sample_other = Some ''o/''"
    "base sample_plain = Some ''/app/''"
    by (simp_all add: sample_combo_def sample_other_def sample_plain_def)
  show ?thesis
    unfolding exposeSeed_store_def c
    by (simp add: m sample_world_def sample_world_after_def new_array_def
        exposeSeed_step_store_def sample_lookups exposeSeed_emit_store_def isSimilarGroup_def
        flush_store_def get_strings_def get_descriptors_def set_cell_def g join_def
        skip_warning_def)
qed

section \<open>The claims\<close>

text \<open>
  Claim C1 (merge correctness). Two modules \<open>a\<close> and \<open>b\<close> whose registry entries name
  groups of the catalog, the same one or two different ones, both with \<open>combine\<close> and
  with the same \<open>comboBase\<close> and \<open>comboSep\<close>, give exactly one descriptor: the
  \<open>comboBase\<close>, then root and path of \<open>a\<close>, the \<open>comboSep\<close>, then root and path of
  \<open>b\<close>. The paths of the entries are non-empty strings, as a module that resolves
  needs. The one console line is the log of the group flushed last.
\<close>

theorem merge_correctness:
  assumes "mp a = Some ea" and "mp b = Some eb"
    and "exposeSeed_groups cfg (ToString (group ea)) = Some ga"
    and "exposeSeed_groups cfg (ToString (group eb)) = Some gb"
    and "path ea = Some pa" and "pa \<noteq> ''''" and "path eb = Some pb" and "pb \<noteq> ''''"
    and "combine ga" and "combine gb"
    and "comboBase ga = Some cb" and "comboBase gb = Some cb"
    and "comboSep ga = Some sep" and "comboSep gb = Some sep"
    and "root ga = Some ra" and "root gb = Some rb"
  shows "exposeSeed_run cfg mp [a, b] =
           Inr ([\<lparr>src = cb @ (ra @ pa) @ sep @ (rb @ pb)\<rparr>], [ConsoleLog gb])"
proof -
  have "resolve cfg mp a = Some (ga, pa)" "resolve cfg mp b = Some (gb, pb)"
    using assms by (simp_all add: resolve_registered)
  then have "exposeSeed_run cfg mp [a, b] =
      Inr ([combo_descriptor gb [fragment (ga, pa), fragment (gb, pb)]], [ConsoleLog gb])"
    using assms by (intro run_two_similar) simp_all
  then show ?thesis
    using assms by (simp add: combo_descriptor_def fragment_def join_def)
qed

theorem merge_correctness_witness:
  "sample_map ''a'' = Some \<lparr>group = Some ''g'', path = Some ''pathA''\<rparr> \<and>
   sample_map ''b'' = Some \<lparr>group = Some ''o'', path = Some ''pathB''\<rparr> \<and>
   exposeSeed_groups sample_config ''g'' = Some sample_combo \<and>
   exposeSeed_groups sample_config ''o'' = Some sample_other \<and>
   sample_combo \<noteq> sample_other \<and>
   exposeSeed_run sample_config sample_map [''a'', ''b''] =
     Inr ([\<lparr>src = ''/combo?r/pathA&o/pathB''\<rparr>], [ConsoleLog sample_other])"
proof -
  have a: "sample_map ''a'' = Some \<lparr>group = Some ''g'', path = Some ''pathA''\<rparr>"
    and b: "sample_map ''b'' = Some \<lparr>group = Some ''o'', path = Some ''pathB''\<rparr>"
    by (simp_all add: sample_map_def)
  have g: "exposeSeed_groups sample_config
             (ToString (group \<lparr>group = Some ''g'', path = Some ''pathA''\<rparr>)) = Some sample_combo"
    and o: "exposeSeed_groups sample_config
             (ToString (group \<lparr>group = Some ''o'', path = Some ''pathB''\<rparr>)) = Some sample_other"
    by (simp_all add: exposeSeed_groups_def sample_config_def)
  have ne: "sample_combo \<noteq> sample_other"
    by (simp add: sample_combo_def sample_other_def)
  have "exposeSeed_run sample_config sample_map [''a'', ''b''] =
     Inr ([\<lparr>src = ''/combo?'' @ (''r/'' @ ''pathA'') @ ''&'' @ (''o/'' @ ''pathB'')\<rparr>],
          [ConsoleLog sample_other])"
    by (rule merge_correctness [OF a b g o])
       (simp_all add: sample_combo_def sample_other_def)
  with a b g o ne show ?thesis by simp
qed

text \<open>
  Claim C2 (order preservation). The output is the list of descriptors of the maximal
  runs of the resolvable modules, in input order: the runs concatenate to the resolved
  modules, consecutive modules of one run have compatible groups, and no run can be
  extended by the first module of the next one. A run of a group with \<open>combine\<close> gives
  one combined descriptor, any other module a single one. In particular, when no
  resolved module has a group with \<open>combine\<close>, the output has one descriptor
  \<open>base + path\<close> for each resolvable module, in input order.
\<close>

theorem order_preservation:
  "(\<exists>out. exposeSeed_run cfg mp ms = Inr (spec_descriptors (resolved_modules cfg mp ms), out)) \<and>
   concat (map (\<lambda>r. fst r # snd r) (runs (resolved_modules cfg mp ms))) =
     resolved_modules cfg mp ms \<and>
   (\<forall>r \<in> set (runs (resolved_modules cfg mp ms)).
      successively (\<lambda>x y. compatible (fst x) (fst y)) (fst r # snd r)) \<and>
   successively (\<lambda>r1 r2. \<not> compatible (fst (last (fst r1 # snd r1))) (fst (fst r2)))
     (runs (resolved_modules cfg mp ms)) \<and>
   ((\<forall>x \<in> set (resolved_modules cfg mp ms). \<not> combine (fst x)) \<longrightarrow>
      (\<exists>out. exposeSeed_run cfg mp ms =
         Inr (map (\<lambda>x. \<lparr>src = ToString (base (fst x)) @ snd x\<rparr>) (resolved_modules cfg mp ms),
              out)))"
proof -
  from run_refines [of cfg mp ms] obtain out where
    r: "exposeSeed_run cfg mp ms = Inr (spec_descriptors (resolved_modules cfg mp ms), out)"
    by blast
  have plain: "\<forall>x \<in> set (resolved_modules cfg mp ms). \<not> combine (fst x) \<Longrightarrow>
      spec_descriptors (resolved_modules cfg mp ms) =
      map (\<lambda>x. \<lparr>src = ToString (base (fst x)) @ snd x\<rparr>) (resolved_modules cfg mp ms)"
    by (simp add: spec_descriptors_no_combine single_descriptor_def)
  have a: "\<exists>out. exposeSeed_run cfg mp ms =
      Inr (spec_descriptors (resolved_modules cfg mp ms), out)"
    using r by blast
  have b: "(\<forall>x \<in> set (resolved_modules cfg mp ms). \<not> combine (fst x)) \<longrightarrow>
      (\<exists>out. exposeSeed_run cfg mp ms =
         Inr (map (\<lambda>x. \<lparr>src = ToString (base (fst x)) @ snd x\<rparr>) (resolved_modules cfg mp ms),
              out))"
    using r plain by auto
  have c: "\<forall>r \<in> set (runs (resolved_modules cfg mp ms)).
      successively (\<lambda>x y. compatible (fst x) (fst y)) (fst r # snd r)"
    using runs_chain by blast
  from a b c runs_concat [of "resolved_modules cfg mp ms"]
    runs_maximal [of "resolved_modules cfg mp ms"]
  show ?thesis by (intro conjI)
qed

lemma sample_resolved:
  "resolved_modules sample_config sample_map [''c'', ''x'', ''foo''] =
     [(sample_plain, ''pathC''), (group_descriptor.truncate sample_config, ''foo/foo-min.js'')]"
  by (simp add: resolved_modules_def resolve_def lookup_module_def sample_map_def
      sample_config_def exposeSeed_groups_def exposeSeed_filter_def DEFAULT_FILTER_def
      js_get_def Object_prototype_def)

theorem order_preservation_witness:
  "resolved_modules sample_config sample_map [''c'', ''x'', ''foo''] =
     [(sample_plain, ''pathC''), (group_descriptor.truncate sample_config, ''foo/foo-min.js'')] \<and>
   \<not> combine sample_plain \<and> \<not> combine (group_descriptor.truncate sample_config) \<and>
   (\<exists>out. exposeSeed_run sample_config sample_map [''c'', ''x'', ''foo''] =
      Inr ([\<lparr>src = ''/app/pathC''\<rparr>, \<lparr>src = ''/yui/foo/foo-min.js''\<rparr>], out))"
proof -
  have p: "\<not> combine sample_plain" "\<not> combine (group_descriptor.truncate sample_config)"
    by (simp_all add: sample_plain_def sample_config_def group_descriptor.truncate_def)
  then have h: "\<forall>x \<in> set (resolved_modules sample_config sample_map [''c'', ''x'', ''foo'']).
      \<not> combine (fst x)"
    unfolding sample_resolved by simp
  with order_preservation [of sample_config sample_map "[''c'', ''x'', ''foo'']"]
  have "\<exists>out. exposeSeed_run sample_config sample_map [''c'', ''x'', ''foo''] =
         Inr (map (\<lambda>x. \<lparr>src = ToString (base (fst x)) @ snd x\<rparr>)
                (resolved_modules sample_config sample_map [''c'', ''x'', ''foo'']), out)"
    by blast
  then have "\<exists>out. exposeSeed_run sample_config sample_map [''c'', ''x'', ''foo''] =
      Inr ([\<lparr>src = ''/app/pathC''\<rparr>, \<lparr>src = ''/yui/foo/foo-min.js''\<rparr>], out)"
    unfolding sample_resolved
    by (simp add: sample_plain_def sample_config_def group_descriptor.truncate_def)
  with p sample_resolved show ?thesis by blast
qed

text \<open>
  Claim C3 (run boundary). When \<open>a\<close> and \<open>c\<close> resolve to the same group with \<open>combine\<close>
  and \<open>b\<close> resolves to a group without it, the list \<open>[a, b, c]\<close> gives exactly three
  descriptors: the combined one of \<open>a\<close> alone, the single one of \<open>b\<close>, the combined one of
  \<open>c\<close> alone. In any list, a module of a group without \<open>combine\<close> cuts the output in two:
  what follows it starts a fresh run.
\<close>

theorem run_boundary:
  assumes "resolve cfg mp a = Some (g, pa)" and "resolve cfg mp b = Some (h, pb)"
    and "resolve cfg mp c = Some (g, pc)" and "combine g" and "\<not> combine h"
  shows "exposeSeed_run cfg mp [a, b, c] =
           Inr ([\<lparr>src = ToString (comboBase g) @ ToString (root g) @ pa\<rparr>,
                 \<lparr>src = ToString (base h) @ pb\<rparr>,
                 \<lparr>src = ToString (comboBase g) @ ToString (root g) @ pc\<rparr>],
                [ConsoleLog g, ConsoleLog g]) \<and>
         (\<exists>d1 o1 d2 o2 o3.
            exposeSeed_run cfg mp (pre @ [b]) = Inr (d1, o1) \<and>
            exposeSeed_run cfg mp (c # post) = Inr (d2, o2) \<and>
            exposeSeed_run cfg mp (pre @ b # c # post) = Inr (d1 @ d2, o3))"
proof -
  have "exposeSeed_run cfg mp [a, b, c] =
      Inr ([combo_descriptor g [fragment (g, pa)], single_descriptor (h, pb),
            combo_descriptor g [fragment (g, pc)]], [ConsoleLog g, ConsoleLog g])"
    using assms by (intro run_three_boundary) simp_all
  then have first: "exposeSeed_run cfg mp [a, b, c] =
           Inr ([\<lparr>src = ToString (comboBase g) @ ToString (root g) @ pa\<rparr>,
                 \<lparr>src = ToString (base h) @ pb\<rparr>,
                 \<lparr>src = ToString (comboBase g) @ ToString (root g) @ pc\<rparr>],
                [ConsoleLog g, ConsoleLog g])"
    by (simp add: combo_descriptor_def fragment_def single_descriptor_def join_def)
  have "resolved_modules cfg mp (pre @ b # c # post) =
      resolved_modules cfg mp pre @ (h, pb) # resolved_modules cfg mp (c # post)"
    using assms(2) by (simp add: resolved_modules_append resolved_modules_Cons)
  moreover have "resolved_modules cfg mp (pre @ [b]) = resolved_modules cfg mp pre @ [(h, pb)]"
    using assms(2) by (simp add: resolved_modules_append resolved_modules_Cons)
  ultimately have "spec_descriptors (resolved_modules cfg mp (pre @ b # c # post)) =
      spec_descriptors (resolved_modules cfg mp (pre @ [b])) @
      spec_descriptors (resolved_modules cfg mp (c # post))"
    using assms(5)
      spec_descriptors_append_plain [of "(h, pb)" "resolved_modules cfg mp pre"
        "resolved_modules cfg mp (c # post)"]
    by simp
  with run_descriptors [of cfg mp "pre @ [b]"] run_descriptors [of cfg mp "c # post"]
    run_descriptors [of cfg mp "pre @ b # c # post"]
  have "\<exists>d1 o1 d2 o2 o3.
            exposeSeed_run cfg mp (pre @ [b]) = Inr (d1, o1) \<and>
            exposeSeed_run cfg mp (c # post) = Inr (d2, o2) \<and>
            exposeSeed_run cfg mp (pre @ b # c # post) = Inr (d1 @ d2, o3)"
    by auto
  with first show ?thesis by (intro conjI)
qed

theorem run_boundary_witness:
  "resolve sample_config sample_map ''a'' = Some (sample_combo, ''pathA'') \<and>
   resolve sample_config sample_map ''c'' = Some (sample_plain, ''pathC'') \<and>
   resolve sample_config sample_map ''d'' = Some (sample_combo, ''pathD'') \<and>
   combine sample_combo \<and> \<not> combine sample_plain \<and>
   exposeSeed_run sample_config sample_map [''a'', ''c'', ''d''] =
     Inr ([\<lparr>src = ''/combo?r/pathA''\<rparr>, \<lparr>src = ''/app/pathC''\<rparr>, \<lparr>src = ''/combo?r/pathD''\<rparr>],
          [ConsoleLog sample_combo, ConsoleLog sample_combo])"
proof -
  have c: "combine sample_combo" and p: "\<not> combine sample_plain"
    by (simp_all add: sample_combo_def sample_plain_def)
  from run_boundary [OF sample_resolve(1) sample_resolve(3) sample_resolve(4) c p, of "[]" "[]"]
  have "exposeSeed_run sample_config sample_map [''a'', ''c'', ''d''] =
     Inr ([\<lparr>src = ToString (comboBase sample_combo) @ ToString (root sample_combo) @ ''pathA''\<rparr>,
           \<lparr>src = ToString (base sample_plain) @ ''pathC''\<rparr>,
           \<lparr>src = ToString (comboBase sample_combo) @ ToString (root sample_combo) @ ''pathD''\<rparr>],
          [ConsoleLog sample_combo, ConsoleLog sample_combo])"
    by blast
  then have "exposeSeed_run sample_config sample_map [''a'', ''c'', ''d''] =
     Inr ([\<lparr>src = ''/combo?r/pathA''\<rparr>, \<lparr>src = ''/app/pathC''\<rparr>, \<lparr>src = ''/combo?r/pathD''\<rparr>],
          [ConsoleLog sample_combo, ConsoleLog sample_combo])"
    by (simp add: sample_combo_def sample_plain_def)
  with c p sample_resolve show ?thesis by simp
qed

text \<open>
  Claim C4 (default suffix) fails on the code at the names that every object inherits.
  The registry of this call has no entry for \<open>constructor\<close>, and yet no default path is
  built for it: \<^verbatim>\<open>map[modules[i]]\<close> finds the inherited member, the registered branch
  finds no path in it, and the module is skipped with a warning. A name that no object
  inherits, such as \<open>foo\<close>, gets \<open>foo/foo-min.js\<close> (\<open>resolve_unregistered\<close> for all of them).
\<close>

theorem default_suffix_inherited_name:
  "exposeSeed_map (sample_static\<lparr>map_js := None\<rparr>) ''constructor'' = None \<and>
   exposeSeed_run sample_config (exposeSeed_map (sample_static\<lparr>map_js := None\<rparr>))
     [''constructor''] =
     Inr ([], [ConsoleWarn
                 ''Skipping module [constructor] form seed due to invalid group resolution.'']) \<and>
   exposeSeed_run sample_config (exposeSeed_map (sample_static\<lparr>map_js := None\<rparr>)) [''foo''] =
     Inr ([\<lparr>src = ''/yui/foo/foo-min.js''\<rparr>], [])"
proof -
  have m: "exposeSeed_map (sample_static\<lparr>map_js := None\<rparr>) = Map.empty"
    by (simp add: exposeSeed_map_def)
  have c: "resolve sample_config Map.empty ''constructor'' = None"
    by (rule resolve_inherited) (simp_all add: Object_prototype_def)
  have f: "resolve sample_config Map.empty ''foo'' =
      Some (group_descriptor.truncate sample_config, ''foo/foo-min.js'')"
    by (simp add: resolve_unregistered Object_prototype_def sample_config_def
        exposeSeed_filter_def DEFAULT_FILTER_def)
  have b: "base sample_config = Some ''/yui/''" "\<not> combine sample_config"
    by (simp_all add: sample_config_def)
  show ?thesis
    unfolding m
    by (simp add: exposeSeed_run_def step_resolve c f exposeSeed_emit_def initial_state_def
        flush_def skip_warning_def b)
qed

text \<open>
  Claim C5 (skip semantics). A module is unresolvable when the loop finds no group, no
  path or the empty path for it. Its iteration leaves the three variables as they are
  and only warns. The whole resolution never raises: it returns a descriptor list, with
  one warning for each unresolvable module in input order, and the same list (and the
  same console output but the warnings) as for the input without those modules; and
  \<^verbatim>\<open>exposeSeed\<close> returns normally whenever \<^verbatim>\<open>yui()\<close> has run before.
\<close>

theorem skip_semantics:
  "(resolve cfg mp m = None \<longleftrightarrow>
      (case lookup_module cfg mp (exposeSeed_groups cfg) (exposeSeed_filter (filter_js cfg)) m of
         (g, p) \<Rightarrow> g = None \<or> p = None \<or> p = Some '''')) \<and>
   (resolve cfg mp m = None \<longrightarrow>
      exposeSeed_step cfg mp (exposeSeed_groups cfg) (exposeSeed_filter (filter_js cfg)) m st =
        Inr (st, [ConsoleWarn (skip_warning m)])) \<and>
   (\<exists>ds out.
      exposeSeed_run cfg mp ms = Inr (ds, out) \<and>
      warnings out = map skip_warning (filter (\<lambda>m. resolve cfg mp m = None) ms) \<and>
      exposeSeed_run cfg mp (filter (\<lambda>m. resolve cfg mp m \<noteq> None) ms) =
        Inr (ds, map ConsoleLog (logs out))) \<and>
   (locals this \<noteq> None \<longrightarrow> (\<exists>r. exposeSeed this = Inr r))"
proof -
  from run_refines [of cfg mp ms] obtain ds out where
    r: "exposeSeed_run cfg mp ms = Inr (ds, out)"
       "warnings out = map skip_warning (filter (\<lambda>m. resolve cfg mp m = None) ms)"
    by blast
  from r run_filter [OF r(1)] have
    "\<exists>ds out.
      exposeSeed_run cfg mp ms = Inr (ds, out) \<and>
      warnings out = map skip_warning (filter (\<lambda>m. resolve cfg mp m = None) ms) \<and>
      exposeSeed_run cfg mp (filter (\<lambda>m. resolve cfg mp m \<noteq> None) ms) =
        Inr (ds, map ConsoleLog (logs out))"
    by blast
  moreover have "resolve cfg mp m = None \<longrightarrow>
      exposeSeed_step cfg mp (exposeSeed_groups cfg) (exposeSeed_filter (filter_js cfg)) m st =
        Inr (st, [ConsoleWarn (skip_warning m)])"
    by (simp add: step_resolve)
  moreover have "locals this \<noteq> None \<longrightarrow> (\<exists>r. exposeSeed this = Inr r)"
    using exposeSeed_total by blast
  ultimately show ?thesis using resolve_None_iff [of cfg mp m] by (intro conjI)
qed

theorem skip_semantics_witness:
  "resolve sample_config sample_map ''x'' = None \<and>
   exposeSeed_step sample_config sample_map (exposeSeed_groups sample_config)
     (exposeSeed_filter (filter_js sample_config)) ''x'' initial_state =
     Inr (initial_state,
          [ConsoleWarn ''Skipping module [x] form seed due to invalid group resolution.'']) \<and>
   (\<exists>ds out.
      exposeSeed_run sample_config sample_map [''a'', ''x'', ''b'', ''c''] = Inr (ds, out) \<and>
      warnings out = [''Skipping module [x] form seed due to invalid group resolution.''] \<and>
      exposeSeed_run sample_config sample_map [''a'', ''b'', ''c''] =
        Inr (ds, map ConsoleLog (logs out))) \<and>
   locals sample_static \<noteq> None \<and>
   (\<exists>r. exposeSeed sample_static = Inr r)"
proof -
  have l: "locals sample_static \<noteq> None" by (simp add: sample_static_def)
  have f: "filter (\<lambda>m. resolve sample_config sample_map m = None) [''a'', ''x'', ''b'', ''c''] =
      [''x'']"
    "filter (\<lambda>m. resolve sample_config sample_map m \<noteq> None) [''a'', ''x'', ''b'', ''c''] =
      [''a'', ''b'', ''c'']"
    by (simp_all add: sample_resolve)
  from skip_semantics [of sample_config sample_map "''x''" initial_state
      "[''a'', ''x'', ''b'', ''c'']" sample_static] sample_resolve(5) l
  have "exposeSeed_step sample_config sample_map (exposeSeed_groups sample_config)
     (exposeSeed_filter (filter_js sample_config)) ''x'' initial_state =
     Inr (initial_state, [ConsoleWarn (skip_warning ''x'')])"
    and "\<exists>ds out.
      exposeSeed_run sample_config sample_map [''a'', ''x'', ''b'', ''c''] = Inr (ds, out) \<and>
      warnings out = map skip_warning [''x''] \<and>
      exposeSeed_run sample_config sample_map [''a'', ''b'', ''c''] =
        Inr (ds, map ConsoleLog (logs out))"
    and "\<exists>r. exposeSeed sample_static = Inr r"
    unfolding f by blast+
  with l sample_resolve(5) show ?thesis by (simp add: skip_warning_def)
qed

text \<open>
  Claim C6 (empty result). The resolution gives a list in every case, never an error or
  another value: for the empty input the empty list, and the empty list exactly when no
  module resolves. The emptiness of that list is what decides the wiring:
  \<^verbatim>\<open>exposeSeed\<close> returns the middleware over the list when it is non-empty and
  \<^verbatim>\<open>false\<close> when it is empty.
\<close>

theorem empty_result:
  "exposeSeed_run cfg mp [] = Inr ([], []) \<and>
   (\<exists>ds out. exposeSeed_run cfg mp ms = Inr (ds, out) \<and>
      (ds = [] \<longleftrightarrow> resolved_modules cfg mp ms = [])) \<and>
   (config this = Inr (cfg, this') \<longrightarrow>
      (\<exists>ds out.
         exposeSeed_run cfg (exposeSeed_map this') (exposeSeed_modules cfg) = Inr (ds, out) \<and>
         exposeSeed this = Inr (if ds = [] then JSFalse else Middleware ds, out, this')))"
proof -
  have a: "exposeSeed_run cfg mp [] = Inr ([], [])"
    by (simp add: exposeSeed_run_def initial_state_def flush_def)
  have b: "\<exists>ds out. exposeSeed_run cfg mp ms = Inr (ds, out) \<and>
      (ds = [] \<longleftrightarrow> resolved_modules cfg mp ms = [])"
    using run_descriptors [of cfg mp ms] by (auto simp: spec_descriptors_Nil_iff)
  have c: "config this = Inr (cfg, this') \<longrightarrow>
      (\<exists>ds out.
         exposeSeed_run cfg (exposeSeed_map this') (exposeSeed_modules cfg) = Inr (ds, out) \<and>
         exposeSeed this = Inr (if ds = [] then JSFalse else Middleware ds, out, this'))"
  proof
    assume "config this = Inr (cfg, this')"
    from exposeSeed_config [OF this] show "\<exists>ds out.
         exposeSeed_run cfg (exposeSeed_map this') (exposeSeed_modules cfg) = Inr (ds, out) \<and>
         exposeSeed this = Inr (if ds = [] then JSFalse else Middleware ds, out, this')"
      by (auto simp: exposeSeed_return_def)
  qed
  from a b c show ?thesis by (intro conjI)
qed

theorem empty_result_witness:
  "config sample_empty = Inr (sample_config\<lparr>seed := Some []\<rparr>, sample_empty) \<and>
   exposeSeed_run (sample_config\<lparr>seed := Some []\<rparr>) (exposeSeed_map sample_empty)
     (exposeSeed_modules (sample_config\<lparr>seed := Some []\<rparr>)) = Inr ([], []) \<and>
   exposeSeed sample_empty = Inr (JSFalse, [], sample_empty)"
proof -
  have m: "exposeSeed_modules (sample_config\<lparr>seed := Some []\<rparr>) = []"
    by (simp add: exposeSeed_modules_def)
  from empty_result [of "sample_config\<lparr>seed := Some []\<rparr>" "exposeSeed_map sample_empty" "[]"
      sample_empty sample_empty]
  have r: "exposeSeed_run (sample_config\<lparr>seed := Some []\<rparr>) (exposeSeed_map sample_empty) [] =
        Inr ([], [])"
    and "\<exists>ds out.
         exposeSeed_run (sample_config\<lparr>seed := Some []\<rparr>) (exposeSeed_map sample_empty)
           (exposeSeed_modules (sample_config\<lparr>seed := Some []\<rparr>)) = Inr (ds, out) \<and>
         exposeSeed sample_empty = Inr (if ds = [] then JSFalse else Middleware ds, out, sample_empty)"
    using config_sample_empty by blast+
  then have "exposeSeed sample_empty = Inr (JSFalse, [], sample_empty)"
    unfolding m by auto
  with r m config_sample_empty show ?thesis by simp
qed

text \<open>
  Claim C7 (idempotence, no hidden state). On the store, a call of \<^verbatim>\<open>exposeSeed\<close> that
  returns has changed no array that existed before it and has left the registry alone;
  it has left the whole static object alone when \<^verbatim>\<open>locals.yui\<close> exists, as it does once
  \<^verbatim>\<open>yui()\<close> has run (\<^verbatim>\<open>yui()\<close> calls \<^verbatim>\<open>config()\<close>, which creates it), and otherwise
  \<^verbatim>\<open>config()\<close> returns the same configuration before and after. The list returned
  is the one of the first embedding, in an array created during the call. Any later
  call on the static object as it was or as this call left it, whatever arrays the
  store holds by then, writes the same console output and returns the same list in an
  array of its own, with all earlier arrays unchanged.
\<close>

theorem no_hidden_state:
  assumes "exposeSeed_store w = Inr (r, out, w')"
  shows "take (length (store w)) (store w') = store w \<and>
         map_js (static w') = map_js (static w) \<and>
         ((\<exists>l c. locals (static w) = Some l \<and> yui l = Some c) \<longrightarrow> static w' = static w) \<and>
         (\<exists>cfg ds.
            config (static w) = Inr (cfg, static w') \<and>
            config (static w') = Inr (cfg, static w') \<and>
            exposeSeed_run cfg (exposeSeed_map (static w')) (exposeSeed_modules cfg) =
              Inr (ds, out) \<and>
            holds_list r w' (length (store w)) ds \<and>
            (static u = static w \<or> static u = static w' \<longrightarrow>
               (\<exists>r2 u'. exposeSeed_store u = Inr (r2, out, u') \<and> static u' = static w' \<and>
                  take (length (store u)) (store u') = store u \<and>
                  holds_list r2 u' (length (store u)) ds)))"
proof -
  from exposeSeed_store_Inr [OF assms] obtain cfg ds where
    c: "config (static w) = Inr (cfg, static w')"
    and r: "exposeSeed_run cfg (exposeSeed_map (static w')) (exposeSeed_modules cfg) =
              Inr (ds, out)"
    and t: "take (length (store w)) (store w') = store w"
    and h: "holds_list r w' (length (store w)) ds"
    by blast
  from config_again [OF c] have c': "config (static w') = Inr (cfg, static w')"
    and m: "map_js (static w') = map_js (static w)"
    and s: "(\<exists>l c. locals (static w) = Some l \<and> yui l = Some c) \<longrightarrow> static w' = static w"
    by blast+
  have later: "static u = static w \<or> static u = static w' \<longrightarrow>
      (\<exists>r2 u'. exposeSeed_store u = Inr (r2, out, u') \<and> static u' = static w' \<and>
         take (length (store u)) (store u') = store u \<and>
         holds_list r2 u' (length (store u)) ds)"
  proof
    assume "static u = static w \<or> static u = static w'"
    with c c' have "config (static u) = Inr (cfg, static w')" by auto
    from exposeSeed_store_run [OF this r] show "\<exists>r2 u'. exposeSeed_store u = Inr (r2, out, u') \<and>
        static u' = static w' \<and> take (length (store u)) (store u') = store u \<and>
        holds_list r2 u' (length (store u)) ds"
      by blast
  qed
  from c c' r h later have "\<exists>cfg ds.
            config (static w) = Inr (cfg, static w') \<and>
            config (static w') = Inr (cfg, static w') \<and>
            exposeSeed_run cfg (exposeSeed_map (static w')) (exposeSeed_modules cfg) =
              Inr (ds, out) \<and>
            holds_list r w' (length (store w)) ds \<and>
            (static u = static w \<or> static u = static w' \<longrightarrow>
               (\<exists>r2 u'. exposeSeed_store u = Inr (r2, out, u') \<and> static u' = static w' \<and>
                  take (length (store u)) (store u') = store u \<and>
                  holds_list r2 u' (length (store u)) ds))"
    by blast
  with t m s show ?thesis by (intro conjI)
qed

theorem no_hidden_state_witness:
  "exposeSeed_store sample_world =
     Inr (MiddlewareRef 1,
          [ConsoleWarn ''Skipping module [x] form seed due to invalid group resolution.'',
           ConsoleLog sample_other],
          sample_world_after) \<and>
   take (length (store sample_world)) (store sample_world_after) = store sample_world \<and>
   static sample_world_after = static sample_world \<and>
   (\<exists>r2 u'.
      exposeSeed_store sample_world_after =
        Inr (r2,
             [ConsoleWarn ''Skipping module [x] form seed due to invalid group resolution.'',
              ConsoleLog sample_other],
             u') \<and>
      static u' = static sample_world_after \<and>
      take (length (store sample_world_after)) (store u') = store sample_world_after \<and>
      holds_list r2 u' (length (store sample_world_after))
        [\<lparr>src = ''/combo?r/pathA&o/pathB''\<rparr>, \<lparr>src = ''/app/pathC''\<rparr>])"
proof -
  let ?out = "[ConsoleWarn ''Skipping module [x] form seed due to invalid group resolution.'',
           ConsoleLog sample_other]"
  from no_hidden_state [OF sample_world_call, of sample_world_after] obtain cfg ds where
    t: "take (length (store sample_world)) (store sample_world_after) = store sample_world"
    and s: "(\<exists>l c. locals (static sample_world) = Some l \<and> yui l = Some c) \<longrightarrow>
          static sample_world_after = static sample_world"
    and h: "holds_list (MiddlewareRef 1) sample_world_after (length (store sample_world)) ds"
    and later: "static sample_world_after = static sample_world \<or>
          static sample_world_after = static sample_world_after \<longrightarrow>
          (\<exists>r2 u'. exposeSeed_store sample_world_after = Inr (r2, ?out, u') \<and>
             static u' = static sample_world_after \<and>
             take (length (store sample_world_after)) (store u') = store sample_world_after \<and>
             holds_list r2 u' (length (store sample_world_after)) ds)"
    by blast
  from h have ds: "ds = [\<lparr>src = ''/combo?r/pathA&o/pathB''\<rparr>, \<lparr>src = ''/app/pathC''\<rparr>]"
    by (simp add: holds_list_def sample_world_after_def)
  have "\<exists>l c. locals (static sample_world) = Some l \<and> yui l = Some c"
    by (simp add: sample_world_def sample_static_def)
  with s have "static sample_world_after = static sample_world" by blast
  with sample_world_call t later ds show ?thesis by blast
qed

text \<open>
  Claim C8 (a skip keeps the run). An unresolvable module \<open>u\<close> between two resolvable
  modules with compatible groups does not separate them: \<open>[a, u, b]\<close> gives the one
  combined descriptor of \<open>a\<close> and \<open>b\<close>, the iteration of \<open>u\<close> returns the state it
  got, and in any list the output is the one of the list without \<open>u\<close>.
\<close>

theorem skip_keeps_run:
  assumes "resolve cfg mp a = Some (ga, pa)" and "resolve cfg mp u = None"
    and "resolve cfg mp b = Some (gb, pb)"
    and "combine ga" and "combine gb"
    and "comboBase ga = comboBase gb" and "comboSep ga = comboSep gb"
  shows "exposeSeed_run cfg mp [a, u, b] =
           Inr ([\<lparr>src = ToString (comboBase ga) @
                   join [ToString (root ga) @ pa, ToString (root gb) @ pb] (comboSep ga)\<rparr>],
                [ConsoleWarn (skip_warning u), ConsoleLog gb]) \<and>
         exposeSeed_step cfg mp (exposeSeed_groups cfg) (exposeSeed_filter (filter_js cfg)) u st =
           Inr (st, [ConsoleWarn (skip_warning u)]) \<and>
         (\<exists>ds o1 o2.
            exposeSeed_run cfg mp (pre @ a # u # b # post) = Inr (ds, o1) \<and>
            exposeSeed_run cfg mp (pre @ a # b # post) = Inr (ds, o2))"
proof -
  have "exposeSeed_run cfg mp [a, u, b] =
      Inr ([combo_descriptor gb [fragment (ga, pa), fragment (gb, pb)]],
           [ConsoleWarn (skip_warning u), ConsoleLog gb])"
    using assms by (intro run_three_skip) simp_all
  then have first: "exposeSeed_run cfg mp [a, u, b] =
           Inr ([\<lparr>src = ToString (comboBase ga) @
                   join [ToString (root ga) @ pa, ToString (root gb) @ pb] (comboSep ga)\<rparr>],
                [ConsoleWarn (skip_warning u), ConsoleLog gb])"
    using assms(6,7) by (simp add: combo_descriptor_def fragment_def)
  have second: "exposeSeed_step cfg mp (exposeSeed_groups cfg) (exposeSeed_filter (filter_js cfg))
      u st = Inr (st, [ConsoleWarn (skip_warning u)])"
    using assms(2) by (simp add: step_resolve)
  from run_skip_anywhere [OF assms(2), of "pre @ [a]" "b # post"]
  have third: "\<exists>ds o1 o2.
            exposeSeed_run cfg mp (pre @ a # u # b # post) = Inr (ds, o1) \<and>
            exposeSeed_run cfg mp (pre @ a # b # post) = Inr (ds, o2)"
    by simp
  from first second third show ?thesis by (intro conjI)
qed

theorem skip_keeps_run_witness:
  "resolve sample_config sample_map ''a'' = Some (sample_combo, ''pathA'') \<and>
   resolve sample_config sample_map ''x'' = None \<and>
   resolve sample_config sample_map ''b'' = Some (sample_other, ''pathB'') \<and>
   combine sample_combo \<and> combine sample_other \<and>
   comboBase sample_combo = comboBase sample_other \<and>
   comboSep sample_combo = comboSep sample_other \<and>
   exposeSeed_run sample_config sample_map [''a'', ''x'', ''b''] =
     Inr ([\<lparr>src = ''/combo?r/pathA&o/pathB''\<rparr>],
          [ConsoleWarn ''Skipping module [x] form seed due to invalid group resolution.'',
           ConsoleLog sample_other])"
proof -
  have c: "combine sample_combo" "combine sample_other"
    "comboBase sample_combo = comboBase sample_other"
    "comboSep sample_combo = comboSep sample_other"
    by (simp_all add: sample_combo_def sample_other_def)
  from skip_keeps_run [OF sample_resolve(1) sample_resolve(5) sample_resolve(2) c,
      of initial_state "[]" "[]"]
  have "exposeSeed_run sample_config sample_map [''a'', ''x'', ''b''] =
      Inr ([\<lparr>src = ToString (comboBase sample_combo) @
              join [ToString (root sample_combo) @ ''pathA'', ToString (root sample_other) @ ''pathB'']
                (comboSep sample_combo)\<rparr>],
           [ConsoleWarn (skip_warning ''x''), ConsoleLog sample_other])"
    by blast
  then have "exposeSeed_run sample_config sample_map [''a'', ''x'', ''b''] =
     Inr ([\<lparr>src = ''/combo?r/pathA&o/pathB''\<rparr>],
          [ConsoleWarn ''Skipping module [x] form seed due to invalid group resolution.'',
           ConsoleLog sample_other])"
    by (simp add: sample_combo_def sample_other_def join_def skip_warning_def)
  with c sample_resolve show ?thesis by simp
qed

text \<open>
  Claim C9 (the configuration is the default group) fails on the code at the names that
  every object inherits. With \<open>combine\<close> in the configuration and no registry,
  \<open>foo\<close> is emitted under the \<open>comboBase\<close> and \<open>root\<close> of the configuration, but
  \<open>toString\<close>, which has no registry entry either, is not given the configuration as its
  group: the inherited member is read as its entry and the module is skipped with a
  warning.
\<close>

theorem unregistered_inherited_name:
  "exposeSeed_map (sample_static\<lparr>map_js := None\<rparr>) ''toString'' = None \<and>
   combine sample_combining \<and>
   exposeSeed_run sample_combining
     (exposeSeed_map (sample_static\<lparr>map_js := None\<rparr>)) [''foo'', ''toString''] =
     Inr ([\<lparr>src = ''/yui-combo?3.10.0/foo/foo-min.js''\<rparr>],
          [ConsoleWarn ''Skipping module [toString] form seed due to invalid group resolution.'',
           ConsoleLog (group_descriptor.truncate sample_combining)])"
proof -
  let ?cfg = sample_combining
  have m: "exposeSeed_map (sample_static\<lparr>map_js := None\<rparr>) = Map.empty"
    by (simp add: exposeSeed_map_def)
  have c: "resolve ?cfg Map.empty ''toString'' = None"
    by (rule resolve_inherited) (simp_all add: Object_prototype_def)
  have f: "resolve ?cfg Map.empty ''foo'' = Some (group_descriptor.truncate ?cfg, ''foo/foo-min.js'')"
    by (simp add: resolve_unregistered Object_prototype_def sample_config_def
        sample_combining_def exposeSeed_filter_def DEFAULT_FILTER_def)
  have b: "combine ?cfg" "comboBase ?cfg = Some ''/yui-combo?''" "root ?cfg = Some ''3.10.0/''"
    by (simp_all add: sample_config_def sample_combining_def)
  show ?thesis
    unfolding m
    by (simp add: exposeSeed_run_def step_resolve c f exposeSeed_emit_def initial_state_def
        flush_def skip_warning_def b join_def)
qed

text \<open>
  Claim C10 (missing group) fails on the code at the group names that every object
  inherits. The entry of \<open>p\<close> names the group \<open>constructor\<close>, which the catalog lacks, but
  \<^verbatim>\<open>groups[...]\<close> finds the inherited member: the module is not skipped, it is emitted
  as \<open>undefined\<close> followed by its path, and nothing is warned. For a group name that is
  neither in the catalog nor inherited, and for the empty path, the module is skipped
  (\<open>unresolvable_registered\<close>).
\<close>

theorem missing_group_inherited_name:
  "sample_inherited_map ''p'' = Some \<lparr>group = Some ''constructor'', path = Some ''pathP''\<rparr> \<and>
   exposeSeed_groups sample_config ''constructor'' = None \<and>
   exposeSeed_run sample_config sample_inherited_map [''p''] =
     Inr ([\<lparr>src = ''undefinedpathP''\<rparr>], [])"
proof -
  have e: "sample_inherited_map ''p'' = Some \<lparr>group = Some ''constructor'', path = Some ''pathP''\<rparr>"
    by (simp add: sample_inherited_map_def)
  have g: "exposeSeed_groups sample_config ''constructor'' = None"
    by (simp add: exposeSeed_groups_def sample_config_def)
  have "js_get (exposeSeed_groups sample_config) inherited_group ''constructor'' =
      Some inherited_group"
    by (simp add: js_get_def g Object_prototype_def)
  then have r: "resolve sample_config sample_inherited_map ''p'' = Some (inherited_group, ''pathP'')"
    by (simp add: resolve_registered e)
  have "exposeSeed_run sample_config sample_inherited_map [''p''] =
      Inr ([\<lparr>src = ''undefinedpathP''\<rparr>], [])"
    by (simp add: exposeSeed_run_def step_resolve r exposeSeed_emit_def initial_state_def
        flush_def inherited_group_def)
  with e g show ?thesis by simp
qed

end
